theory Spec2Isabelle
  imports Complex_Main "HOL-Library.Sublist"
begin

section \<open>Errors\<close>

text \<open>
  The Python exceptions that the modelled code can raise. Each carries the name
  (key, keyword or file) that the interpreter would report.
\<close>

datatype py_error =
    TypeError string
  | KeyError string
  | IndexError
  | AttributeError string
  | FileNotFoundError string
  | SystemExit int

section \<open>Dictionaries and keyword arguments\<close>

text \<open>
  A dictionary is kept as the list of its items in insertion order. \<open>d[k] = v\<close>: an
  existing key keeps its place, a new key goes to the end.
\<close>

definition dict_set :: "('k \<times> 'v) list \<Rightarrow> 'k \<Rightarrow> 'v \<Rightarrow> ('k \<times> 'v) list" where
  "dict_set d k v =
     (if k \<in> fst ` set d then map (\<lambda>kv. if fst kv = k then (k, v) else kv) d
      else d @ [(k, v)])"

text \<open>
  Binding the keyword arguments of a call to a parameter list: the first keyword that is
  not a parameter raises; otherwise the call goes through with the bound arguments.
\<close>

definition bind_keywords :: "string list \<Rightarrow> (string \<times> 'v) list \<Rightarrow> py_error + (string \<times> 'v) list" where
  "bind_keywords params kwargs =
     (case find (\<lambda>kv. fst kv \<notin> set params) kwargs of
        Some kv \<Rightarrow> Inl (TypeError (fst kv))
      | None \<Rightarrow> Inr kwargs)"

section \<open>Strings and counting\<close>

text \<open>\<open>str.lower\<close> on ASCII text: the letters A to Z are moved to a to z.\<close>

definition lower_char :: "char \<Rightarrow> char" where
  "lower_char c =
     (let n = (of_char c :: nat) in if 65 \<le> n \<and> n \<le> 90 then char_of (n + 32) else c)"

definition lower :: "string \<Rightarrow> string" where
  "lower s = map lower_char s"

text \<open>
  \<open>collections.Counter(xs).items()\<close>: each distinct element with its number of
  occurrences, in order of first occurrence.
\<close>

definition first_occurrences :: "'a list \<Rightarrow> 'a list" where
  "first_occurrences xs = rev (remdups (rev xs))"

definition Counter :: "'a list \<Rightarrow> ('a \<times> nat) list" where
  "Counter xs = map (\<lambda>k. (k, count_list xs k)) (first_occurrences xs)"

section \<open>The reset / cache state machine of \<open>DomainAnalyser.__init__\<close>\<close>

text \<open>
  The constructor receives \<open>reset\<close> (default \<open>None\<close>) and stores
  \<open>None\<close> or \<open>int(reset)\<close>. The driver passes a boolean, other callers an integer.
\<close>

datatype reset_arg = RNone | RBool bool | RInt int

fun effective_reset :: "reset_arg \<Rightarrow> int option" where
  "effective_reset RNone = None"
| "effective_reset (RBool b) = Some (if b then 1 else 0)"
| "effective_reset (RInt i) = Some i"

text \<open>
  The part of the file system the constructor reads and writes: the pickle of the merged
  dataset (\<open>cache_file\<close>), \<open>None\<close> when the file does not exist, and for each
  breakdown the pickle of its statistics (\<open>cache_directory / (file_base + ".pkl")\<close>).
  A dataset is of any type \<open>'df\<close>, the statistics of a breakdown of any type \<open>'s\<close>.
\<close>

record ('df, 's) disk =
  cache_file :: "'df option"
  stats_cache :: "string \<Rightarrow> 's option"

text \<open>
  The attributes of the object that the steps below assign: \<open>self.dataframe\<close> and
  \<open>self.all_stats_per_format\<close>, which holds one frame (of any type \<open>'f\<close>) per
  breakdown.
\<close>

record ('df, 'f) analyser =
  dataframe :: "'df option"
  all_stats_per_format :: "(string \<times> 'f) list"

text \<open>What the constructor does, in the order it does it.\<close>

datatype event =
    BuildFromSources
  | WriteDatasetCache
  | LoadDatasetCache
  | ReuseStats string
  | RecomputeStats string
  | WriteStatsCache string

text \<open>
  \<open>read_data\<close>: when the cache file is absent or \<open>reset == 0\<close> the dataset is
  built from the two sqlite files (lines 294 to 343; \<open>built\<close> is what they build) and
  pickled to the cache file, otherwise the cache file is unpickled.
\<close>

definition read_data ::
  "'df \<Rightarrow> int option \<Rightarrow> ('df, 'f) analyser \<times> ('df, 's) disk
     \<Rightarrow> event list \<times> ('df, 'f) analyser \<times> ('df, 's) disk" where
  "read_data built R st =
     (case st of (self, d) \<Rightarrow>
        if cache_file d = None \<or> R = Some 0
        then ([BuildFromSources, WriteDatasetCache],
              self\<lparr>dataframe := Some built\<rparr>, d\<lparr>cache_file := Some built\<rparr>)
        else ([LoadDatasetCache], self\<lparr>dataframe := cache_file d\<rparr>, d))"

text \<open>
  The loop of \<open>calculate_statistics\<close> over the items of the \<open>statistics\<close>
  mapping, lines 254 to 272. \<open>one_breakdown\<close> is
  \<open>calculate_statistics_one_breakdown\<close>, which reads \<open>self.dataframe\<close> and the
  properties of the breakdown; \<open>pd_concat\<close> is the concatenation of line 270.
\<close>

fun statistics_loop ::
  "('df option \<Rightarrow> 'p \<Rightarrow> 's) \<Rightarrow> ('s \<Rightarrow> 'f) \<Rightarrow> int option \<Rightarrow> (string \<times> 'p) list
     \<Rightarrow> ('df, 'f) analyser \<times> ('df, 's) disk
     \<Rightarrow> event list \<times> ('df, 'f) analyser \<times> ('df, 's) disk" where
  "statistics_loop one_breakdown pd_concat R [] st = ([], st)"
| "statistics_loop one_breakdown pd_concat R (item # rest) st =
     (case (item, st) of ((file_base, props), (self, d)) \<Rightarrow>
        let reuse = (stats_cache d file_base \<noteq> None \<and> R = None);
            all_stats = (if reuse then the (stats_cache d file_base)
                         else one_breakdown (dataframe self) props);
            d' = (if reuse then d
                  else d\<lparr>stats_cache := (stats_cache d)(file_base \<mapsto> all_stats)\<rparr>);
            self' = self\<lparr>all_stats_per_format :=
                      dict_set (all_stats_per_format self) file_base (pd_concat all_stats)\<rparr>;
            (evs, st') = statistics_loop one_breakdown pd_concat R rest (self', d')
        in ((if reuse then [ReuseStats file_base]
             else [RecomputeStats file_base, WriteStatsCache file_base]) @ evs, st'))"

definition calculate_statistics ::
  "('df option \<Rightarrow> 'p \<Rightarrow> 's) \<Rightarrow> ('s \<Rightarrow> 'f) \<Rightarrow> int option \<Rightarrow> (string \<times> 'p) list
     \<Rightarrow> ('df, 'f) analyser \<times> ('df, 's) disk
     \<Rightarrow> event list \<times> ('df, 'f) analyser \<times> ('df, 's) disk" where
  "calculate_statistics one_breakdown pd_concat R statistics st =
     (case st of (self, d) \<Rightarrow>
        statistics_loop one_breakdown pd_concat R statistics
          (self\<lparr>all_stats_per_format := []\<rparr>, d))"

text \<open>
  The constructor from line 102 up to and including \<open>calculate_statistics\<close>. The calls
  into the statistics library and \<open>pickle\<close> are taken to return. With
  \<open>write_dataframe_to_sqlite\<close> set, \<open>write_data\<close> reads the columns of
  \<open>self.dataframe\<close> and the constructor exits with status 0 before any statistics are
  computed.
\<close>

definition init_read_data ::
  "'df \<Rightarrow> int option \<Rightarrow> ('df, 's) disk \<Rightarrow> event list \<times> ('df, 'f) analyser \<times> ('df, 's) disk" where
  "init_read_data built R d =
     (let self = \<lparr>dataframe = None, all_stats_per_format = []\<rparr>
      in if (R \<noteq> None \<and> the R \<le> 1) \<or> cache_file d = None
         then read_data built R (self, d)
         else ([], self, d))"

definition DomainAnalyser_init ::
  "'df \<Rightarrow> ('df option \<Rightarrow> 'p \<Rightarrow> 's) \<Rightarrow> ('s \<Rightarrow> 'f) \<Rightarrow> reset_arg \<Rightarrow> bool \<Rightarrow> (string \<times> 'p) list
     \<Rightarrow> ('df, 's) disk \<Rightarrow> py_error + (event list \<times> ('df, 'f) analyser \<times> ('df, 's) disk)" where
  "DomainAnalyser_init built one_breakdown pd_concat reset write_dataframe_to_sqlite statistics d =
     (let R = effective_reset reset;
          (evs1, self1, d1) = init_read_data built R d
      in if write_dataframe_to_sqlite
         then (if dataframe self1 = None then Inl (AttributeError ''columns'')
               else Inl (SystemExit 0))
         else (let (evs2, self2, d2) =
                     calculate_statistics one_breakdown pd_concat R statistics (self1, d1)
               in Inr (evs1 @ evs2, self2, d2)))"

section \<open>Calling the constructor from the command-line driver\<close>

text \<open>
  The parameters \<open>DomainAnalyser.__init__\<close> declares besides \<open>self\<close>. It has no
  \<open>**kwargs\<close>, so a keyword outside this list is a \<open>TypeError\<close>.
\<close>

definition DomainAnalyser_params :: "string list" where
  "DomainAnalyser_params =
     [''cache_file'', ''cache_directory'', ''image_directory'', ''tex_prepend_path'',
      ''output_file'', ''reset'', ''records_filename'', ''internet_nl_filename'',
      ''statistics'', ''variables'', ''module_info'', ''weights'', ''url_key'',
      ''translations'', ''breakdown_labels'', ''module_key'', ''variable_key'',
      ''sheet_renames'', ''n_digits'', ''write_dataframe_to_sqlite'', ''statistics_to_xls'',
      ''plot_statistics'', ''plot_info'', ''show_plots'', ''image_type'', ''max_plots'']"

text \<open>
  A call of the constructor with keyword arguments: the arguments are bound to the
  parameters before the body of the constructor is entered.
\<close>

definition DomainAnalyser_call :: "(string \<times> 'v) list \<Rightarrow> py_error + (string \<times> 'v) list" where
  "DomainAnalyser_call kwargs = bind_keywords DomainAnalyser_params kwargs"

text \<open>
  What \<open>yaml.load\<close> returns for a document of plain YAML data: a scalar, a sequence, or
  a mapping, kept as the list of its items.
\<close>

datatype yaml =
    YNull
  | YBool bool
  | YInt int
  | YFloat rat
  | YStr string
  | YSeq "yaml list"
  | YMap "(yaml \<times> yaml) list"

text \<open>
  \<open>x[k]\<close> with a string \<open>k\<close>: a mapping gives the value or raises \<open>KeyError\<close>;
  \<open>None\<close>, a scalar, a string and a list raise \<open>TypeError\<close>.
\<close>

definition subscript :: "yaml \<Rightarrow> string \<Rightarrow> py_error + yaml" where
  "subscript x k =
     (case x of
        YMap m \<Rightarrow> (case map_of m (YStr k) of None \<Rightarrow> Inl (KeyError k) | Some v \<Rightarrow> Inr v)
      | _ \<Rightarrow> Inl (TypeError ''subscript''))"

text \<open>
  \<open>x.get(k, default)\<close>: a mapping gives the value or the default; any other value has
  no attribute \<open>get\<close>.
\<close>

definition get :: "yaml \<Rightarrow> string \<Rightarrow> yaml \<Rightarrow> py_error + yaml" where
  "get x k dflt =
     (case x of
        YMap m \<Rightarrow> (case map_of m (YStr k) of None \<Rightarrow> Inr dflt | Some v \<Rightarrow> Inr v)
      | _ \<Rightarrow> Inl (AttributeError ''get''))"

text \<open>\<open>pathlib.Path(x)\<close> takes a string; any other value of a document is a \<open>TypeError\<close>.\<close>

definition pathlib_Path :: "yaml \<Rightarrow> py_error + string" where
  "pathlib_Path x = (case x of YStr s \<Rightarrow> Inr s | _ \<Rightarrow> Inl (TypeError ''Path''))"

text \<open>The parsed command line, as far as \<open>main\<close> reads it after loading the settings.\<close>

record cmd_args =
  output_filename :: "string option"
  working_directory :: "string option"
  reset_flag :: bool

text \<open>Lines 58 to 61 and lines 63 to 66.\<close>

definition output_file_of :: "cmd_args \<Rightarrow> yaml \<Rightarrow> py_error + yaml" where
  "output_file_of args general_settings =
     (case output_filename args of
        None \<Rightarrow> get general_settings ''output'' (YStr ''internet_nl_stats'')
      | Some f \<Rightarrow> Inr (YStr f))"

definition working_directory_of :: "cmd_args \<Rightarrow> yaml \<Rightarrow> py_error + string" where
  "working_directory_of args general_settings =
     (case working_directory args of
        None \<Rightarrow> (case get general_settings ''working_directory'' (YStr ''.'') of
                   Inl e \<Rightarrow> Inl e
                 | Inr w \<Rightarrow> pathlib_Path w)
      | Some w \<Rightarrow> Inr w)"

text \<open>
  The keyword arguments of the call in \<open>main\<close>, in the order they are written.
\<close>

definition main_kwargs :: "'v \<Rightarrow> 'v \<Rightarrow> 'v \<Rightarrow> 'v \<Rightarrow> 'v \<Rightarrow> 'v \<Rightarrow> 'v \<Rightarrow> (string \<times> 'v) list" where
  "main_kwargs reset output_file statistics gk_data variables weights translations =
     [(''reset'', reset), (''output_file'', output_file), (''statistics'', statistics),
      (''gk_data'', gk_data), (''variables'', variables), (''weights'', weights),
      (''translations'', translations)]"

text \<open>
  \<open>main\<close> from the loaded settings (line 51) to the point where the constructor is
  called (line 70): the six subscripts in source order, the output file, the working
  directory, and the \<open>with\<close> statement that changes into it. \<open>chdir\<close> is the file
  system's answer: the exception that entering the directory raises, if any. The result is
  the keyword arguments of the call.
\<close>

definition main_arguments ::
  "cmd_args \<Rightarrow> yaml \<Rightarrow> (string \<Rightarrow> py_error option) \<Rightarrow> py_error + (string \<times> yaml) list" where
  "main_arguments args settings chdir =
     (case subscript settings ''general'' of Inl e \<Rightarrow> Inl e | Inr general_settings \<Rightarrow>
      case subscript settings ''statistics'' of Inl e \<Rightarrow> Inl e | Inr statistics \<Rightarrow>
      case subscript settings ''translations'' of Inl e \<Rightarrow> Inl e | Inr translations \<Rightarrow>
      case subscript settings ''gk_data'' of Inl e \<Rightarrow> Inl e | Inr gk_data \<Rightarrow>
      case subscript settings ''variables'' of Inl e \<Rightarrow> Inl e | Inr variables \<Rightarrow>
      case subscript settings ''weight'' of Inl e \<Rightarrow> Inl e | Inr weights \<Rightarrow>
      case output_file_of args general_settings of Inl e \<Rightarrow> Inl e | Inr output_file \<Rightarrow>
      case working_directory_of args general_settings of Inl e \<Rightarrow> Inl e | Inr wd \<Rightarrow>
      case chdir wd of Some e \<Rightarrow> Inl e | None \<Rightarrow>
        Inr (main_kwargs (YBool (reset_flag args)) output_file statistics gk_data variables
               weights translations))"

definition main ::
  "cmd_args \<Rightarrow> yaml \<Rightarrow> (string \<Rightarrow> py_error option) \<Rightarrow> py_error + (string \<times> yaml) list" where
  "main args settings chdir =
     (case main_arguments args settings chdir of
        Inl e \<Rightarrow> Inl e
      | Inr kwargs \<Rightarrow> DomainAnalyser_call kwargs)"

section \<open>Sheet names in \<open>write_statistics\<close>\<close>

text \<open>
  The elements of the list \<open>sheets\<close>. The loop ends with \<open>sheets.append(sheets)\<close>,
  which stores the list object itself, so an element is either a string or that list.
\<close>

datatype sheet_item = SheetName string | SheetsList

text \<open>Decimal digits of a natural number, and \<open>"{:02d}".format(cnt)\<close>.\<close>

fun digits :: "nat \<Rightarrow> string" where
  "digits n = (if n < 10 then [char_of (48 + n)] else digits (n div 10) @ [char_of (48 + n mod 10)])"

declare digits.simps [simp del]

definition format_02d :: "nat \<Rightarrow> string" where
  "format_02d cnt = (if cnt < 10 then CHR ''0'' # digits cnt else digits cnt)"

text \<open>
  \<open>sheet_renames\<close> is \<open>None\<close> or a mapping of rules, each a regular-expression
  substitution \<open>re.sub(pat, rep, _)\<close>; a rule is taken as the string function it computes.
\<close>

definition apply_sheet_renames :: "(string \<Rightarrow> string) list option \<Rightarrow> string \<Rightarrow> string" where
  "apply_sheet_renames sheet_renames file_base =
     (case sheet_renames of
        None \<Rightarrow> file_base
      | Some rules \<Rightarrow> foldl (\<lambda>sheet_name rule. rule sheet_name) file_base rules)"

text \<open>
  One pass of the loop body, lines 179 to 191: the state is \<open>sheets\<close>, \<open>cnt\<close> and
  the sheet names handed to \<open>to_excel\<close> so far.
\<close>

definition sheet_step ::
  "(string \<Rightarrow> string) list option \<Rightarrow> sheet_item list \<times> nat \<times> string list \<Rightarrow> string
     \<Rightarrow> sheet_item list \<times> nat \<times> string list" where
  "sheet_step sheet_renames st file_base =
     (case st of (sheets, cnt, written) \<Rightarrow>
        let sheet_name = apply_sheet_renames sheet_renames file_base;
            sheet_name = (if length sheet_name > 32 then take 32 sheet_name else sheet_name);
            sheet_name = (if SheetName sheet_name \<in> set sheets
                          then take 30 sheet_name @ format_02d cnt else sheet_name)
        in (sheets @ [SheetsList], cnt + 1, written @ [sheet_name]))"

definition write_statistics_sheets :: "(string \<Rightarrow> string) list option \<Rightarrow> string list \<Rightarrow> string list" where
  "write_statistics_sheets sheet_renames file_bases =
     snd (snd (foldl (sheet_step sheet_renames) ([], 0, []) file_bases))"

text \<open>
  The same loop with the element the membership test looks for appended instead, for
  comparison: what the claimed de-duplication computes.
\<close>

definition sheet_step_claimed ::
  "(string \<Rightarrow> string) list option \<Rightarrow> sheet_item list \<times> nat \<times> string list \<Rightarrow> string
     \<Rightarrow> sheet_item list \<times> nat \<times> string list" where
  "sheet_step_claimed sheet_renames st file_base =
     (case st of (sheets, cnt, written) \<Rightarrow>
        let sheet_name = apply_sheet_renames sheet_renames file_base;
            sheet_name = (if length sheet_name > 32 then take 32 sheet_name else sheet_name);
            sheet_name = (if SheetName sheet_name \<in> set sheets
                          then take 30 sheet_name @ format_02d cnt else sheet_name)
        in (sheets @ [SheetName sheet_name], cnt + 1, written @ [sheet_name]))"

definition claimed_sheets :: "(string \<Rightarrow> string) list option \<Rightarrow> string list \<Rightarrow> string list" where
  "claimed_sheets sheet_renames file_bases =
     snd (snd (foldl (sheet_step_claimed sheet_renames) ([], 0, []) file_bases))"

section \<open>Duplicate columns in \<open>write_data\<close>\<close>

text \<open>
  The inner loop: the first column whose lower-cased name is \<open>col_lower\<close> is dropped
  by label (\<open>drop([col], axis=1)\<close> removes every column carrying that label), then
  \<open>break\<close>.
\<close>

definition drop_first_match :: "string \<Rightarrow> string list \<Rightarrow> string list" where
  "drop_first_match col_lower cols =
     (case find (\<lambda>col. lower col = col_lower) cols of
        None \<Rightarrow> cols
      | Some col \<Rightarrow> filter (\<lambda>c. c \<noteq> col) cols)"

definition write_data_step :: "string list \<Rightarrow> string \<times> nat \<Rightarrow> string list" where
  "write_data_step cols item =
     (case item of (col_lower, multiplicity) \<Rightarrow>
        if multiplicity > 1 then drop_first_match col_lower cols else cols)"

text \<open>The columns of the frame that \<open>write_data\<close> hands to \<open>to_sql\<close>.\<close>

definition write_data_columns :: "string list \<Rightarrow> string list" where
  "write_data_columns cols = foldl write_data_step cols (Counter (map lower cols))"

text \<open>
  What the claim describes, for comparison: of each group of names that agree up to case,
  only the first column is kept.
\<close>

fun keep_first_per_group :: "string list \<Rightarrow> string list \<Rightarrow> string list" where
  "keep_first_per_group seen [] = []"
| "keep_first_per_group seen (c # cs) =
     (if lower c \<in> set seen then keep_first_per_group seen cs
      else c # keep_first_per_group (lower c # seen) cs)"

text \<open>A column is dropped by the code when its name is the first of a group of several.\<close>

definition dropped :: "string list \<Rightarrow> string \<Rightarrow> bool" where
  "dropped cols c =
     (count_list (map lower cols) (lower c) > 1
      \<and> find (\<lambda>col. lower col = lower c) cols = Some c)"

text \<open>The columns of a frame whose names agree with \<open>c\<close> up to case, in their order.\<close>

definition group_of :: "string list \<Rightarrow> string \<Rightarrow> string list" where
  "group_of cols c = filter (\<lambda>x. lower x = lower c) cols"

section \<open>The option mask\<close>

text \<open>
  A question's frame: per row the three index levels (module, question, option) and the
  value of the column \<open>variable\<close>.
\<close>

record question_row =
  level0 :: string
  level1 :: string
  level2 :: string
  variable :: string

text \<open>
  \<open>re.sub(r"_\d\.0$", "", s)\<close>: the pattern is four characters long and \<open>$\<close>
  matches at the end of the string or just before a final newline. Digits are the ASCII
  digits.
\<close>

definition is_digit :: "char \<Rightarrow> bool" where
  "is_digit c = (48 \<le> (of_char c :: nat) \<and> (of_char c :: nat) \<le> 57)"

fun option_suffix :: "string \<Rightarrow> bool" where
  "option_suffix [a, b, c, d] = (a = CHR ''_'' \<and> is_digit b \<and> c = CHR ''.'' \<and> d = CHR ''0'')"
| "option_suffix _ = False"

definition strip_option_suffix :: "string \<Rightarrow> string" where
  "strip_option_suffix s =
     (let n = length s in
      if option_suffix (drop (n - 4) s) then take (n - 4) s
      else if 5 \<le> n \<and> last s = CHR 0x0A \<and> option_suffix (take 4 (drop (n - 5) s))
           then take (n - 5) s @ [CHR 0x0A]
      else s)"

text \<open>
  \<open>get_option_mask(question_df, variables)\<close> from \<open>utils\<close>; \<open>variables\<close> is the
  metadata table reduced to its column \<open>type\<close>.
\<close>

definition get_option_mask :: "question_row list \<Rightarrow> (string \<times> string) list \<Rightarrow> py_error + bool list" where
  "get_option_mask question_df variables =
     (case question_df of
        [] \<Rightarrow> Inl IndexError
      | r # _ \<Rightarrow>
          let original_name = strip_option_suffix (variable r) in
          (case map_of variables original_name of
             None \<Rightarrow> Inl (KeyError original_name)
           | Some question_type \<Rightarrow>
               if question_type = ''dict''
               then Inr (map (\<lambda>row. (level2 row = ''Good'' \<or> level2 row = ''Yes'')
                                     \<or> level2 row = ''Passed'') question_df)
               else Inr (map (\<lambda>row. True) question_df)))"

text \<open>The parameters the function declares, and the way \<open>make_plots\<close> calls it.\<close>

definition get_option_mask_params :: "string list" where
  "get_option_mask_params = [''question_df'', ''variables'']"

datatype mask_arg =
    QuestionDf "question_row list"
  | Variables "(string \<times> string) list"
  | QuestionType string

definition make_plots_mask_call ::
  "question_row list \<Rightarrow> (string \<times> string) list \<Rightarrow> string \<Rightarrow> py_error + bool list" where
  "make_plots_mask_call question_df variables question_type =
     (case bind_keywords get_option_mask_params
             [(''question_df'', QuestionDf question_df), (''variables'', Variables variables),
              (''question_type'', QuestionType question_type)] of
        Inl e \<Rightarrow> Inl e
      | Inr _ \<Rightarrow> get_option_mask question_df variables)"

section \<open>Cells, columns and translation entries\<close>

text \<open>
  A cell of a frame, or a key of a dictionary: a string, a number, \<open>None\<close>, or a float
  that is not a number. Numbers are kept up to Python's \<open>==\<close>, which does not tell
  \<open>1\<close> from \<open>1.0\<close> or \<open>True\<close>. A NaN is not equal to itself, so a Python set
  or dictionary finds it only when it is handed the very same object; a NaN therefore
  carries the identity of its object, and number 0 is numpy's \<open>np.nan\<close>. \<open>None\<close> is
  an ordinary member of a set and an ordinary key.
\<close>

datatype cell = Str string | Num rat | PyNone | NaN nat

definition is_num :: "cell \<Rightarrow> bool" where
  "is_num v = (case v of Num _ \<Rightarrow> True | _ \<Rightarrow> False)"

definition is_nan :: "cell \<Rightarrow> bool" where
  "is_nan v = (case v of NaN _ \<Rightarrow> True | _ \<Rightarrow> False)"

text \<open>\<open>pd.isna\<close>: the values pandas counts as missing.\<close>

definition isna :: "cell \<Rightarrow> bool" where
  "isna v = (v = PyNone \<or> is_nan v)"

text \<open>
  The equality of pandas' hash tables, which \<open>unique\<close>, \<open>duplicated\<close> and the lookup
  of \<open>Series.map\<close> use: all NaN are one value, and \<open>None\<close> is another.
\<close>

definition same_value :: "cell \<Rightarrow> cell \<Rightarrow> bool" where
  "same_value a b = (a = b \<or> (is_nan a \<and> is_nan b))"

text \<open>
  The comparison \<open>column == key\<close>, cell by cell: it is false on a missing cell and for a
  missing key.
\<close>

definition mask_eq :: "cell \<Rightarrow> cell \<Rightarrow> bool" where
  "mask_eq v key = (v = key \<and> \<not> isna v)"

text \<open>
  The value a translation entry maps a key to: an integer or a float of the settings
  file, or the \<open>np.nan\<close> that \<open>fill_booleans\<close> inserts. \<open>float(val)\<close> turns it
  into the float stored in the column; \<open>float(np.nan)\<close> is \<open>np.nan\<close> itself.
\<close>

datatype target = TInt int | TFloat rat | TNaN

fun float_of :: "target \<Rightarrow> cell" where
  "float_of (TInt i) = Num (of_int i)"
| "float_of (TFloat r) = Num r"
| "float_of TNaN = NaN 0"

type_synonym entry = "(cell \<times> target) list"
type_synonym translation_map = "(string \<times> entry) list"

text \<open>
  \<open>Series.unique()\<close>: the distinct values in order of first appearance; of several NaN
  the first is kept.
\<close>

fun unique_from :: "cell list \<Rightarrow> cell list \<Rightarrow> cell list" where
  "unique_from seen [] = []"
| "unique_from seen (v # vs) =
     (if list_ex (same_value v) seen then unique_from seen vs
      else v # unique_from (v # seen) vs)"

definition unique :: "cell list \<Rightarrow> cell list" where
  "unique col = unique_from [] col"

section \<open>The boolean fill of \<open>fill_booleans\<close>\<close>

text \<open>
  \<open>mask = tables[col] == key; if any(mask): tables.loc[mask, col] = value\<close>.
\<close>

definition assign_where :: "cell \<Rightarrow> cell \<Rightarrow> cell list \<Rightarrow> cell list" where
  "assign_where key val col =
     (if list_ex (\<lambda>v. mask_eq v key) col
      then map (\<lambda>v. if mask_eq v key then val else v) col
      else col)"

text \<open>The loop over the items of one entry, lines 63 to 66.\<close>

definition apply_entry :: "entry \<Rightarrow> cell list \<Rightarrow> cell list" where
  "apply_entry trans_prop col =
     foldl (\<lambda>c kv. assign_where (fst kv) (float_of (snd kv)) c) col trans_prop"

text \<open>
  \<open>list(nan_val)[0]\<close> takes the first element of a set in its iteration order, which
  Python does not fix for strings. The order is a parameter: \<open>pick\<close> gives the position,
  in the list of uncovered values, of the element that comes first.
\<close>

definition first_of :: "(cell list \<Rightarrow> nat) \<Rightarrow> cell list \<Rightarrow> cell" where
  "first_of pick xs = xs ! (pick xs mod length xs)"

definition pick_nth :: "nat \<Rightarrow> cell list \<Rightarrow> nat" where
  "pick_nth n xs = n"

text \<open>
  The body of the loop over the entries, lines 57 to 66, for one entry. The intersection
  and the difference are those of Python sets: a value is found among the keys when it
  is equal to one of them, a NaN only when it is the same object.
\<close>

definition entry_step ::
  "(cell list \<Rightarrow> nat) \<Rightarrow> cell list \<Rightarrow> cell list \<Rightarrow> entry \<Rightarrow> cell list \<times> entry" where
  "entry_step pick unique_values col trans_prop =
     (if list_ex (\<lambda>k. k \<in> set unique_values) (map fst trans_prop)
      then (let nan_val = filter (\<lambda>v. v \<notin> fst ` set trans_prop) unique_values;
                trans_prop' = (if nan_val \<noteq> []
                               then dict_set trans_prop (first_of pick nan_val) TNaN
                               else trans_prop)
            in (apply_entry trans_prop' col, trans_prop'))
      else (col, trans_prop))"

fun fill_entries ::
  "(cell list \<Rightarrow> nat) \<Rightarrow> cell list \<Rightarrow> cell list \<Rightarrow> translation_map \<Rightarrow> cell list \<times> translation_map" where
  "fill_entries pick unique_values col [] = (col, [])"
| "fill_entries pick unique_values col ((trans_key, trans_prop) # rest) =
     (let (col', trans_prop') = entry_step pick unique_values col trans_prop;
          (col'', rest') = fill_entries pick unique_values col' rest
      in (col'', (trans_key, trans_prop') # rest'))"

text \<open>
  \<open>variables.loc[col, "type"]\<close> with its \<open>KeyError\<close> handler: a column is converted
  unless the metadata types it \<open>dict\<close>.
\<close>

definition convert_to_bool :: "(string \<times> string) list \<Rightarrow> string \<Rightarrow> bool" where
  "convert_to_bool variables col =
     (case map_of variables col of None \<Rightarrow> True | Some var_type \<Rightarrow> var_type \<noteq> ''dict'')"

text \<open>The body of the loop over the columns, for one column.\<close>

definition fill_column ::
  "(cell list \<Rightarrow> nat) \<Rightarrow> (string \<times> string) list \<Rightarrow> translation_map \<Rightarrow> string \<times> cell list
     \<Rightarrow> cell list \<times> translation_map" where
  "fill_column pick variables translations named =
     (if convert_to_bool variables (fst named) \<and> length (unique (snd named)) \<le> 3
      then fill_entries pick (unique (snd named)) (snd named) translations
      else (snd named, translations))"

text \<open>
  \<open>fill_booleans\<close>: a frame is the list of its named columns. The function changes
  both of its arguments in place, so the model returns both.
\<close>

fun fill_booleans ::
  "(cell list \<Rightarrow> nat) \<Rightarrow> (string \<times> cell list) list \<Rightarrow> translation_map \<Rightarrow> (string \<times> string) list
     \<Rightarrow> (string \<times> cell list) list \<times> translation_map" where
  "fill_booleans pick [] translations variables = ([], translations)"
| "fill_booleans pick (named # rest) translations variables =
     (let (col', translations') = fill_column pick variables translations named;
          (rest', translations'') = fill_booleans pick rest translations' variables
      in ((fst named, col') # rest', translations''))"

text \<open>
  The call in \<open>read_data\<close>, lines 309 and 310: \<open>self.translations\<close> is the object
  handed to \<open>fill_booleans\<close>, so what the helper adds to it stays in the attribute.
\<close>

definition read_data_fill ::
  "(cell list \<Rightarrow> nat) \<Rightarrow> translation_map option \<Rightarrow> (string \<times> cell list) list \<Rightarrow> (string \<times> string) list
     \<Rightarrow> (string \<times> cell list) list \<times> translation_map option" where
  "read_data_fill pick self_translations tables variables =
     (case self_translations of
        None \<Rightarrow> (tables, None)
      | Some translations \<Rightarrow>
          (let (tables', translations') = fill_booleans pick tables translations variables
           in (tables', Some translations')))"

section \<open>One entry and one cell at a time\<close>

text \<open>
  What \<open>entry_step\<close> makes of an entry does not depend on the cells of the column,
  and what \<open>apply_entry\<close> makes of a cell does not depend on the other cells.
\<close>

definition entry_after :: "(cell list \<Rightarrow> nat) \<Rightarrow> cell list \<Rightarrow> entry \<Rightarrow> entry" where
  "entry_after pick unique_values trans_prop = snd (entry_step pick unique_values [] trans_prop)"

definition cell_apply :: "entry \<Rightarrow> cell \<Rightarrow> cell" where
  "cell_apply trans_prop v =
     foldl (\<lambda>w kv. if mask_eq w (fst kv) then float_of (snd kv) else w) v trans_prop"

section \<open>The translations as later columns and the caller see them\<close>

text \<open>
  One state of the translations extends another when it has the same entries under the
  same names and each entry has the items of the older one, in their order, followed by
  the items added since.
\<close>

definition extends :: "translation_map \<Rightarrow> translation_map \<Rightarrow> bool" where
  "extends old new = list_all2 (\<lambda>a b. fst a = fst b \<and> prefix (snd a) (snd b)) old new"

text \<open>The translations as they stand when the loop reaches column number \<open>k\<close>.\<close>

definition seen_by ::
  "(cell list \<Rightarrow> nat) \<Rightarrow> (string \<times> cell list) list \<Rightarrow> translation_map \<Rightarrow> (string \<times> string) list
     \<Rightarrow> nat \<Rightarrow> translation_map" where
  "seen_by pick tables translations variables k =
     snd (fill_booleans pick (take k tables) translations variables)"

section \<open>Value translation of a variable\<close>

text \<open>
  \<open>Series.map(trans)\<close> with a dictionary: pandas looks each cell up among the keys,
  with the equality of its hash tables; a cell that is found becomes the value the
  dictionary gives that key, any other cell becomes \<open>np.nan\<close>.
\<close>

definition pd_lookup :: "(cell \<times> 'v) list \<Rightarrow> cell \<Rightarrow> 'v option" where
  "pd_lookup tr v = map_option snd (find (\<lambda>kv. same_value (fst kv) v) tr)"

definition series_map :: "(cell \<times> cell) list \<Rightarrow> cell list \<Rightarrow> cell list" where
  "series_map tr col =
     map (\<lambda>v. case pd_lookup tr v of Some t \<Rightarrow> t | None \<Rightarrow> NaN 0) col"

text \<open>
  Lines 324 to 332; \<open>tr\<close> is the mapping \<open>trans\<close> that \<open>yaml.load\<close>
  returns, as the list of its items. The guard intersects two Python sets.
\<close>

definition translate_column :: "(cell \<times> cell) list option \<Rightarrow> cell list \<Rightarrow> cell list" where
  "translate_column var_translate col =
     (case var_translate of
        None \<Rightarrow> col
      | Some tr \<Rightarrow>
          if list_ex (\<lambda>k. k \<in> set (unique col)) (map fst tr)
          then series_map tr col
          else col)"

text \<open>What the claim describes, for comparison: an uncovered value stays as it is.\<close>

definition translate_keeping :: "(cell \<times> cell) list \<Rightarrow> cell list \<Rightarrow> cell list" where
  "translate_keeping tr col =
     map (\<lambda>v. case pd_lookup tr v of Some t \<Rightarrow> t | None \<Rightarrow> v) col"

section \<open>Building the merged dataset\<close>

text \<open>
  The last steps of \<open>read_data\<close>, lines 339 to 343, on the two frames as they stand
  there. A row of the register frame and a row of the scan frame are of any type; what
  the steps read from them is given by \<open>key_l\<close> and \<open>key_r\<close> (the cell in the column
  \<open>url_key\<close>, the extracted domain), \<open>be_id\<close> (the cell in the column \<open>be_id\<close>)
  and \<open>weight\<close> (the cell a merged row has in the column \<open>weight_key\<close>). A merged row
  is the pair of the rows it joins.

  \<open>pd.merge(left, right, on=key)\<close> is an inner join that keeps the order of the left
  rows; two keys match when they are equal, and missing keys match each other.
\<close>

definition join_eq :: "cell \<Rightarrow> cell \<Rightarrow> bool" where
  "join_eq a b = (a = b \<or> (isna a \<and> isna b))"

definition merge_inner :: "('r \<Rightarrow> cell) \<Rightarrow> ('t \<Rightarrow> cell) \<Rightarrow> 'r list \<Rightarrow> 't list \<Rightarrow> ('r \<times> 't) list" where
  "merge_inner key_l key_r records tables =
     concat (map (\<lambda>r. map (\<lambda>t. (r, t)) (filter (\<lambda>t. join_eq (key_l r) (key_r t)) tables)) records)"

text \<open>\<open>dropna(subset=[weight_key], axis='index', how='any')\<close>.\<close>

definition dropna :: "('m \<Rightarrow> cell) \<Rightarrow> 'm list \<Rightarrow> 'm list" where
  "dropna weight rows = filter (\<lambda>m. \<not> isna (weight m)) rows"

text \<open>
  \<open>mask = df[be_id].duplicated(); df = df[~mask]\<close>: a row is marked when the value of
  its identifier has occurred in an earlier row.
\<close>

fun drop_duplicated :: "('m \<Rightarrow> cell) \<Rightarrow> cell list \<Rightarrow> 'm list \<Rightarrow> 'm list" where
  "drop_duplicated ident seen [] = []"
| "drop_duplicated ident seen (m # ms) =
     (if list_ex (same_value (ident m)) seen then drop_duplicated ident seen ms
      else m # drop_duplicated ident (ident m # seen) ms)"

definition build_dataframe ::
  "('r \<Rightarrow> cell) \<Rightarrow> ('t \<Rightarrow> cell) \<Rightarrow> ('r \<Rightarrow> cell) \<Rightarrow> ('r \<times> 't \<Rightarrow> cell) \<Rightarrow> 'r list \<Rightarrow> 't list
     \<Rightarrow> ('r \<times> 't) list" where
  "build_dataframe key_l key_r be_id weight records tables =
     drop_duplicated (\<lambda>m. be_id (fst m)) []
       (dropna weight (merge_inner key_l key_r records tables))"

section \<open>Properties of the reset / cache state machine\<close>

lemma map_of_dict_set: "map_of (dict_set d k v) = (map_of d)(k \<mapsto> v)"
proof (cases "k \<in> fst ` set d")
  case True
  have "map_of (map (\<lambda>kv. if fst kv = k then (k, v) else kv) d) x
        = (if x = k \<and> (\<exists>w. (k, w) \<in> set d) then Some v else map_of d x)" for x
    by (induction d) auto
  then have "map_of (map (\<lambda>kv. if fst kv = k then (k, v) else kv) d) = (map_of d)(k \<mapsto> v)"
    using True by (fastforce simp: fun_eq_iff)
  with True show ?thesis by (simp add: dict_set_def)
next
  case False
  then have "map_of d k = None" by (simp add: map_of_eq_None_iff)
  then have "map_of (d @ [(k, v)]) = (map_of d)(k \<mapsto> v)"
    by (auto simp: map_add_def fun_eq_iff split: option.splits)
  with False show ?thesis by (simp add: dict_set_def)
qed

lemma statistics_loop_Cons:
  "statistics_loop ob pc R ((fb, p) # rest) (self, d) =
     (let reuse = (stats_cache d fb \<noteq> None \<and> R = None);
          all_stats = (if reuse then the (stats_cache d fb) else ob (dataframe self) p);
          d' = (if reuse then d else d\<lparr>stats_cache := (stats_cache d)(fb \<mapsto> all_stats)\<rparr>);
          self' = self\<lparr>all_stats_per_format :=
                    dict_set (all_stats_per_format self) fb (pc all_stats)\<rparr>;
          res = statistics_loop ob pc R rest (self', d')
      in ((if reuse then [ReuseStats fb] else [RecomputeStats fb, WriteStatsCache fb]) @ fst res,
          snd res))"
  by (simp add: Let_def split_def)

lemma statistics_loop_result:
  fixes self :: "('df, 'f) analyser" and d :: "('df, 's) disk"
  assumes "distinct (map fst stats)"
  shows "fst (statistics_loop ob pc R stats (self, d)) = concat (map (\<lambda>item.
             if stats_cache d (fst item) \<noteq> None \<and> R = None then [ReuseStats (fst item)]
             else [RecomputeStats (fst item), WriteStatsCache (fst item)]) stats)
    \<and> dataframe (fst (snd (statistics_loop ob pc R stats (self, d)))) = dataframe self
    \<and> cache_file (snd (snd (statistics_loop ob pc R stats (self, d)))) = cache_file d
    \<and> (\<forall>fb. stats_cache (snd (snd (statistics_loop ob pc R stats (self, d)))) fb =
           (case map_of stats fb of
              None \<Rightarrow> stats_cache d fb
            | Some p \<Rightarrow> if stats_cache d fb \<noteq> None \<and> R = None then stats_cache d fb
                        else Some (ob (dataframe self) p)))
    \<and> (\<forall>fb. map_of (all_stats_per_format (fst (snd (statistics_loop ob pc R stats (self, d))))) fb =
           (case map_of stats fb of
              None \<Rightarrow> map_of (all_stats_per_format self) fb
            | Some p \<Rightarrow> Some (pc (if stats_cache d fb \<noteq> None \<and> R = None
                                   then the (stats_cache d fb) else ob (dataframe self) p))))"
  using assms
proof (induction stats arbitrary: self d)
  case Nil
  show ?case by simp
next
  case (Cons item rest)
  obtain fb0 p0 where item: "item = (fb0, p0)" by (cases item)
  let ?reuse = "stats_cache d fb0 \<noteq> None \<and> R = None"
  let ?all = "if ?reuse then the (stats_cache d fb0) else ob (dataframe self) p0"
  let ?d' = "if ?reuse then d else d\<lparr>stats_cache := (stats_cache d)(fb0 \<mapsto> ?all)\<rparr>"
  let ?self' = "self\<lparr>all_stats_per_format := dict_set (all_stats_per_format self) fb0 (pc ?all)\<rparr>"
  let ?r = "statistics_loop ob pc R rest (?self', ?d')"
  have unfold: "statistics_loop ob pc R (item # rest) (self, d)
      = ((if ?reuse then [ReuseStats fb0] else [RecomputeStats fb0, WriteStatsCache fb0]) @ fst ?r,
         snd ?r)"
    unfolding item statistics_loop_Cons by (simp add: Let_def)
  from Cons.prems have dr: "distinct (map fst rest)" and nin: "fb0 \<notin> fst ` set rest"
    using item by auto
  from nin have none: "map_of rest fb0 = None" by (simp add: map_of_eq_None_iff)
  note IH = Cons.IH [OF dr, of ?self' ?d']
  have other: "stats_cache ?d' (fst it) = stats_cache d (fst it)" if "it \<in> set rest" for it
    using that nin by auto
  have "fst ?r = concat (map (\<lambda>item.
           if stats_cache ?d' (fst item) \<noteq> None \<and> R = None then [ReuseStats (fst item)]
           else [RecomputeStats (fst item), WriteStatsCache (fst item)]) rest)"
    using IH by blast
  also have "\<dots> = concat (map (\<lambda>item.
           if stats_cache d (fst item) \<noteq> None \<and> R = None then [ReuseStats (fst item)]
           else [RecomputeStats (fst item), WriteStatsCache (fst item)]) rest)"
    using other by (intro arg_cong [where f = concat] map_cong) auto
  finally have c1: "fst (statistics_loop ob pc R (item # rest) (self, d)) = concat (map (\<lambda>item.
             if stats_cache d (fst item) \<noteq> None \<and> R = None then [ReuseStats (fst item)]
             else [RecomputeStats (fst item), WriteStatsCache (fst item)]) (item # rest))"
    unfolding unfold using item by simp
  have c2: "dataframe (fst (snd (statistics_loop ob pc R (item # rest) (self, d)))) = dataframe self"
    unfolding unfold using IH by simp
  have c3: "cache_file (snd (snd (statistics_loop ob pc R (item # rest) (self, d)))) = cache_file d"
    unfolding unfold using IH by simp
  have c4: "stats_cache (snd (snd (statistics_loop ob pc R (item # rest) (self, d)))) fb =
           (case map_of (item # rest) fb of
              None \<Rightarrow> stats_cache d fb
            | Some p \<Rightarrow> if stats_cache d fb \<noteq> None \<and> R = None then stats_cache d fb
                        else Some (ob (dataframe self) p))" for fb
  proof -
    have "stats_cache (snd (snd ?r)) fb =
           (case map_of rest fb of
              None \<Rightarrow> stats_cache ?d' fb
            | Some p \<Rightarrow> if stats_cache ?d' fb \<noteq> None \<and> R = None then stats_cache ?d' fb
                        else Some (ob (dataframe ?self') p))"
      using IH by blast
    then show ?thesis
      unfolding unfold using none item by (auto split: option.splits)
  qed
  have c5: "map_of (all_stats_per_format (fst (snd (statistics_loop ob pc R (item # rest) (self, d))))) fb =
           (case map_of (item # rest) fb of
              None \<Rightarrow> map_of (all_stats_per_format self) fb
            | Some p \<Rightarrow> Some (pc (if stats_cache d fb \<noteq> None \<and> R = None
                                   then the (stats_cache d fb) else ob (dataframe self) p)))" for fb
  proof -
    have "map_of (all_stats_per_format (fst (snd ?r))) fb =
           (case map_of rest fb of
              None \<Rightarrow> map_of (all_stats_per_format ?self') fb
            | Some p \<Rightarrow> Some (pc (if stats_cache ?d' fb \<noteq> None \<and> R = None
                                   then the (stats_cache ?d' fb) else ob (dataframe ?self') p)))"
      using IH by blast
    then show ?thesis
      unfolding unfold using none item by (auto simp: map_of_dict_set split: option.splits)
  qed
  from c1 c2 c3 c4 c5 show ?case by blast
qed

lemma init_read_data_cases:
  "init_read_data built R d =
     (if (R \<noteq> None \<and> the R \<le> 1) \<or> cache_file d = None
      then if cache_file d = None \<or> R = Some 0
           then ([BuildFromSources, WriteDatasetCache],
                 \<lparr>dataframe = Some built, all_stats_per_format = []\<rparr>, d\<lparr>cache_file := Some built\<rparr>)
           else ([LoadDatasetCache], \<lparr>dataframe = cache_file d, all_stats_per_format = []\<rparr>, d)
      else ([], \<lparr>dataframe = None, all_stats_per_format = []\<rparr>, d))"
  by (auto simp: init_read_data_def read_data_def Let_def)

lemma stats_cache_init_read_data:
  "stats_cache (snd (snd (init_read_data built R d))) = stats_cache d"
  by (simp add: init_read_data_cases)

lemma all_stats_init_read_data:
  "all_stats_per_format (fst (snd (init_read_data built R d))) = []"
  by (simp add: init_read_data_cases)

lemma DomainAnalyser_init_run:
  fixes pc :: "'s \<Rightarrow> 'f" and d :: "('df, 's) disk"
  shows "DomainAnalyser_init built ob pc reset False statistics d =
     (let i = init_read_data built (effective_reset reset) d;
          l = statistics_loop ob pc (effective_reset reset) statistics (snd i)
      in Inr (fst i @ fst l, snd l))"
proof -
  obtain evs1 and self1 :: "('df, 'f) analyser" and d1
    where i: "init_read_data built (effective_reset reset) d = (evs1, self1, d1)"
    by (metis prod_cases3)
  have "all_stats_per_format self1 = []"
    using i by (auto simp: init_read_data_cases split: if_splits)
  then have "self1\<lparr>all_stats_per_format := []\<rparr> = self1" by simp
  then show ?thesis
    by (simp add: DomainAnalyser_init_def i calculate_statistics_def split_def Let_def)
qed

text \<open>
  C1. With \<open>R\<close> the effective reset value, for every state of the two caches and every
  \<open>statistics\<close> mapping, a run of the constructor that does not export the dataset
  returns, and: (a) \<open>read_data\<close> is entered iff \<open>R\<close> is present and at most 1, or
  the dataset cache file is absent; when it is not entered the dataset stays unset and the
  cache file untouched; (b) the dataset is rebuilt from the sources, and pickled to the
  cache file, iff the cache file is absent or \<open>R = 0\<close>, and it is loaded from the cache
  file in the remaining cases of (a); (c) for each breakdown, its statistics are taken from
  its pickle iff that pickle exists and \<open>R\<close> is absent, and the pickle is left as it is;
  otherwise they are computed from the dataset in memory and the pickle is overwritten
  with them; either way the frame kept for the breakdown is the concatenation of these
  statistics, and the pickles of other breakdowns are not touched. So an absent \<open>R\<close>
  with all caches present only reuses and changes nothing on disk, \<open>R = 0\<close> rebuilds
  the dataset and all statistics, \<open>R = 1\<close> with the cache file present loads the
  dataset and recomputes all statistics, and \<open>R \<ge> 2\<close> with the cache file present
  leaves the dataset unset and recomputes all statistics.
\<close>

theorem reset_state_machine:
  fixes built :: 'df and one_breakdown :: "'df option \<Rightarrow> 'p \<Rightarrow> 's" and pd_concat :: "'s \<Rightarrow> 'f"
    and d :: "('df, 's) disk" and statistics :: "(string \<times> 'p) list" and reset :: reset_arg
  assumes dn: "distinct (map fst statistics)"
  defines "R \<equiv> effective_reset reset"
  defines "runs \<equiv> (R \<noteq> None \<and> the R \<le> 1) \<or> cache_file d = None"
  defines "rebuilds \<equiv> cache_file d = None \<or> R = Some 0"
  defines "reused \<equiv> \<lambda>file_base. stats_cache d file_base \<noteq> None \<and> R = None"
  defines "recomputing \<equiv> concat (map (\<lambda>item. [RecomputeStats (fst item), WriteStatsCache (fst item)])
                                    statistics)"
  shows "\<exists>evs self' d'.
     DomainAnalyser_init built one_breakdown pd_concat reset False statistics d
       = Inr (evs, self', d')
     \<and> ((BuildFromSources \<in> set evs \<or> LoadDatasetCache \<in> set evs) = runs)
     \<and> (\<not> runs \<longrightarrow> dataframe self' = None \<and> cache_file d' = cache_file d)
     \<and> ((BuildFromSources \<in> set evs) = rebuilds)
     \<and> ((WriteDatasetCache \<in> set evs) = rebuilds)
     \<and> (rebuilds \<longrightarrow> dataframe self' = Some built \<and> cache_file d' = Some built)
     \<and> ((LoadDatasetCache \<in> set evs) = (runs \<and> \<not> rebuilds))
     \<and> (runs \<and> \<not> rebuilds \<longrightarrow> dataframe self' = cache_file d \<and> cache_file d' = cache_file d)
     \<and> (\<forall>item \<in> set statistics.
           (reused (fst item) \<longrightarrow>
                ReuseStats (fst item) \<in> set evs
              \<and> RecomputeStats (fst item) \<notin> set evs
              \<and> WriteStatsCache (fst item) \<notin> set evs
              \<and> stats_cache d' (fst item) = stats_cache d (fst item)
              \<and> map_of (all_stats_per_format self') (fst item)
                  = Some (pd_concat (the (stats_cache d (fst item)))))
         \<and> (\<not> reused (fst item) \<longrightarrow>
                RecomputeStats (fst item) \<in> set evs
              \<and> WriteStatsCache (fst item) \<in> set evs
              \<and> ReuseStats (fst item) \<notin> set evs
              \<and> stats_cache d' (fst item) = Some (one_breakdown (dataframe self') (snd item))
              \<and> map_of (all_stats_per_format self') (fst item)
                  = Some (pd_concat (one_breakdown (dataframe self') (snd item)))))
     \<and> (\<forall>file_base. file_base \<notin> fst ` set statistics
           \<longrightarrow> stats_cache d' file_base = stats_cache d file_base)
     \<and> (R = None \<and> cache_file d \<noteq> None \<and> (\<forall>item \<in> set statistics. stats_cache d (fst item) \<noteq> None)
           \<longrightarrow> evs = map (\<lambda>item. ReuseStats (fst item)) statistics \<and> d' = d)
     \<and> (R = Some 0 \<longrightarrow> evs = [BuildFromSources, WriteDatasetCache] @ recomputing)
     \<and> (R = Some 1 \<and> cache_file d \<noteq> None \<longrightarrow> evs = [LoadDatasetCache] @ recomputing)
     \<and> ((\<exists>r. R = Some r \<and> 2 \<le> r) \<and> cache_file d \<noteq> None
           \<longrightarrow> evs = recomputing \<and> dataframe self' = None)"
proof -
  define i :: "event list \<times> ('df, 'f) analyser \<times> ('df, 's) disk"
    where "i = init_read_data built R d"
  define evs1 where "evs1 = fst i"
  define self1 where "self1 = fst (snd i)"
  define d1 where "d1 = snd (snd i)"
  define l where "l = statistics_loop one_breakdown pd_concat R statistics (self1, d1)"
  define evs2 where "evs2 = fst l"
  define self' where "self' = fst (snd l)"
  define d' where "d' = snd (snd l)"
  let ?g = "\<lambda>item. if reused (fst item) then [ReuseStats (fst item)]
                    else [RecomputeStats (fst item), WriteStatsCache (fst item)]"
  have i: "(evs1, self1, d1) =
     (if runs
      then if rebuilds
           then ([BuildFromSources, WriteDatasetCache],
                 \<lparr>dataframe = Some built, all_stats_per_format = []\<rparr>, d\<lparr>cache_file := Some built\<rparr>)
           else ([LoadDatasetCache], \<lparr>dataframe = cache_file d, all_stats_per_format = []\<rparr>, d)
      else ([], \<lparr>dataframe = None, all_stats_per_format = []\<rparr>, d))"
    unfolding evs1_def self1_def d1_def i_def runs_def rebuilds_def
    by (simp add: init_read_data_cases)
  have sc1: "stats_cache d1 = stats_cache d" using i by (auto split: if_splits)
  have as1: "all_stats_per_format self1 = []" using i by (auto split: if_splits)
  note L = statistics_loop_result [OF dn, of one_breakdown pd_concat R self1 d1, folded l_def]
  have run: "DomainAnalyser_init built one_breakdown pd_concat reset False statistics d
       = Inr (evs1 @ evs2, self', d')"
    unfolding DomainAnalyser_init_run
    by (simp add: Let_def i_def [symmetric] R_def [symmetric] evs1_def self1_def d1_def
        l_def evs2_def self'_def d'_def)
  have e2: "evs2 = concat (map ?g statistics)"
    using L unfolding evs2_def reused_def sc1 by blast
  have df: "dataframe self' = dataframe self1" using L unfolding self'_def by blast
  have cf: "cache_file d' = cache_file d1" using L unfolding d'_def by blast
  have sc: "stats_cache d' fb =
           (case map_of statistics fb of
              None \<Rightarrow> stats_cache d fb
            | Some p \<Rightarrow> if reused fb then stats_cache d fb
                        else Some (one_breakdown (dataframe self') p))" for fb
    using L unfolding d'_def reused_def sc1 df by blast
  have asp: "map_of (all_stats_per_format self') fb =
           (case map_of statistics fb of
              None \<Rightarrow> None
            | Some p \<Rightarrow> Some (pd_concat (if reused fb then the (stats_cache d fb)
                                          else one_breakdown (dataframe self') p)))" for fb
    using L unfolding self'_def reused_def sc1 df [unfolded self'_def] as1
    by (auto split: option.splits)
  have no_ds: "BuildFromSources \<notin> set evs2" "WriteDatasetCache \<notin> set evs2"
      "LoadDatasetCache \<notin> set evs2"
    unfolding e2 by auto
  have no_st: "ReuseStats fb \<notin> set evs1" "RecomputeStats fb \<notin> set evs1"
      "WriteStatsCache fb \<notin> set evs1" for fb
    using i by (auto split: if_splits)
  have reb: "rebuilds \<Longrightarrow> runs" unfolding rebuilds_def runs_def by auto
  have a: "(BuildFromSources \<in> set (evs1 @ evs2) \<or> LoadDatasetCache \<in> set (evs1 @ evs2)) = runs"
    using i no_ds by (auto split: if_splits)
  have a': "\<not> runs \<longrightarrow> dataframe self' = None \<and> cache_file d' = cache_file d"
    using i df cf by (auto split: if_splits)
  have b1: "(BuildFromSources \<in> set (evs1 @ evs2)) = rebuilds"
    using i no_ds reb by (auto split: if_splits)
  have b2: "(WriteDatasetCache \<in> set (evs1 @ evs2)) = rebuilds"
    using i no_ds reb by (auto split: if_splits)
  have b3: "rebuilds \<longrightarrow> dataframe self' = Some built \<and> cache_file d' = Some built"
    using i df cf reb by (auto split: if_splits)
  have b4: "(LoadDatasetCache \<in> set (evs1 @ evs2)) = (runs \<and> \<not> rebuilds)"
    using i no_ds by (auto split: if_splits)
  have b5: "runs \<and> \<not> rebuilds \<longrightarrow> dataframe self' = cache_file d \<and> cache_file d' = cache_file d"
    using i df cf by (auto split: if_splits)
  have mo: "map_of statistics (fst item) = Some (snd item)" if "item \<in> set statistics" for item
  proof -
    have "(fst item, snd item) \<in> set statistics" using that by simp
    then show ?thesis using dn by (simp only: map_of_eq_Some_iff)
  qed
  have c: "\<forall>item \<in> set statistics.
           (reused (fst item) \<longrightarrow>
                ReuseStats (fst item) \<in> set (evs1 @ evs2)
              \<and> RecomputeStats (fst item) \<notin> set (evs1 @ evs2)
              \<and> WriteStatsCache (fst item) \<notin> set (evs1 @ evs2)
              \<and> stats_cache d' (fst item) = stats_cache d (fst item)
              \<and> map_of (all_stats_per_format self') (fst item)
                  = Some (pd_concat (the (stats_cache d (fst item)))))
         \<and> (\<not> reused (fst item) \<longrightarrow>
                RecomputeStats (fst item) \<in> set (evs1 @ evs2)
              \<and> WriteStatsCache (fst item) \<in> set (evs1 @ evs2)
              \<and> ReuseStats (fst item) \<notin> set (evs1 @ evs2)
              \<and> stats_cache d' (fst item) = Some (one_breakdown (dataframe self') (snd item))
              \<and> map_of (all_stats_per_format self') (fst item)
                  = Some (pd_concat (one_breakdown (dataframe self') (snd item))))"
  proof
    fix item
    assume it: "item \<in> set statistics"
    have in2: "set (?g item) \<subseteq> set evs2" unfolding e2 using it by auto
    have r1: "ReuseStats (fst item) \<in> set evs2 \<longleftrightarrow> reused (fst item)"
      unfolding e2 using it by (auto split: if_splits)
    have r2: "RecomputeStats (fst item) \<in> set evs2 \<longleftrightarrow> \<not> reused (fst item)"
      unfolding e2 using it by (auto split: if_splits)
    have r3: "WriteStatsCache (fst item) \<in> set evs2 \<longleftrightarrow> \<not> reused (fst item)"
      unfolding e2 using it by (auto split: if_splits)
    show "(reused (fst item) \<longrightarrow>
                ReuseStats (fst item) \<in> set (evs1 @ evs2)
              \<and> RecomputeStats (fst item) \<notin> set (evs1 @ evs2)
              \<and> WriteStatsCache (fst item) \<notin> set (evs1 @ evs2)
              \<and> stats_cache d' (fst item) = stats_cache d (fst item)
              \<and> map_of (all_stats_per_format self') (fst item)
                  = Some (pd_concat (the (stats_cache d (fst item)))))
         \<and> (\<not> reused (fst item) \<longrightarrow>
                RecomputeStats (fst item) \<in> set (evs1 @ evs2)
              \<and> WriteStatsCache (fst item) \<in> set (evs1 @ evs2)
              \<and> ReuseStats (fst item) \<notin> set (evs1 @ evs2)
              \<and> stats_cache d' (fst item) = Some (one_breakdown (dataframe self') (snd item))
              \<and> map_of (all_stats_per_format self') (fst item)
                  = Some (pd_concat (one_breakdown (dataframe self') (snd item))))"
      using r1 r2 r3 no_st sc [of "fst item"] asp [of "fst item"] mo [OF it] by simp
  qed
  have c': "\<forall>file_base. file_base \<notin> fst ` set statistics
           \<longrightarrow> stats_cache d' file_base = stats_cache d file_base"
  proof (intro allI impI)
    fix file_base
    assume "file_base \<notin> fst ` set statistics"
    then have "map_of statistics file_base = None" by (simp add: map_of_eq_None_iff)
    then show "stats_cache d' file_base = stats_cache d file_base"
      using sc [of file_base] by simp
  qed
  have k1: "evs1 @ evs2 = map (\<lambda>item. ReuseStats (fst item)) statistics \<and> d' = d"
    if h: "R = None \<and> cache_file d \<noteq> None \<and> (\<forall>item \<in> set statistics. stats_cache d (fst item) \<noteq> None)"
  proof -
    from h have nr: "\<not> runs" unfolding runs_def by simp
    then have e1: "evs1 = []" and d1: "d1 = d" using i by simp_all
    have "concat (map ?g statistics) = map (\<lambda>item. ReuseStats (fst item)) statistics"
      using h unfolding reused_def by (induction statistics) auto
    then have ev: "evs1 @ evs2 = map (\<lambda>item. ReuseStats (fst item)) statistics"
      using e1 e2 by simp
    have "stats_cache d' fb = stats_cache d fb" for fb
    proof (cases "map_of statistics fb")
      case None
      then show ?thesis using sc [of fb] by simp
    next
      case (Some p)
      then have "(fb, p) \<in> set statistics" by (rule map_of_SomeD)
      then have "reused fb" using h unfolding reused_def by force
      then show ?thesis using sc [of fb] Some by simp
    qed
    then have "stats_cache d' = stats_cache d" by (rule ext)
    moreover have "cache_file d' = cache_file d" using cf d1 by simp
    ultimately have "d' = d" by simp
    with ev show ?thesis by simp
  qed
  have all_re: "evs2 = recomputing" if "R \<noteq> None"
  proof -
    have "concat (map ?g statistics) = recomputing"
      unfolding recomputing_def reused_def using that by auto
    then show ?thesis using e2 by simp
  qed
  have k2: "evs1 @ evs2 = [BuildFromSources, WriteDatasetCache] @ recomputing" if "R = Some 0"
  proof -
    from that have "runs" "rebuilds" unfolding runs_def rebuilds_def by simp_all
    then have "evs1 = [BuildFromSources, WriteDatasetCache]" using i by simp
    then show ?thesis using all_re that by simp
  qed
  have k3: "evs1 @ evs2 = [LoadDatasetCache] @ recomputing" if "R = Some 1 \<and> cache_file d \<noteq> None"
  proof -
    from that have "runs" "\<not> rebuilds" unfolding runs_def rebuilds_def by simp_all
    then have "evs1 = [LoadDatasetCache]" using i by simp
    then show ?thesis using all_re that by simp
  qed
  have k4: "evs1 @ evs2 = recomputing \<and> dataframe self' = None"
    if "(\<exists>r. R = Some r \<and> 2 \<le> r) \<and> cache_file d \<noteq> None"
  proof -
    from that have "\<not> runs" unfolding runs_def by auto
    then have "evs1 = []" "dataframe self1 = None" using i by simp_all
    then show ?thesis using all_re that df by auto
  qed
  show ?thesis
  proof (intro exI conjI)
    show "DomainAnalyser_init built one_breakdown pd_concat reset False statistics d
       = Inr (evs1 @ evs2, self', d')" by (rule run)
  qed (use a a' b1 b2 b3 b4 b5 c c' k1 k2 k3 k4 in \<open>blast+\<close>)
qed

theorem reset_state_machine_witness:
  "distinct (map fst [(''sbi'', ''by sbi''), (''gk_sbs'', ''by size'')])
   \<and> (\<exists>evs self' d'.
         DomainAnalyser_init ''built''
             (\<lambda>df props. (case df of None \<Rightarrow> ''nothing'' | Some x \<Rightarrow> x) @ ''/'' @ props)
             (\<lambda>s. [s]) RNone False
             [(''sbi'', ''by sbi''), (''gk_sbs'', ''by size'')]
             \<lparr>cache_file = Some ''cached'', stats_cache = [''gk_sbs'' \<mapsto> ''old'']\<rparr>
           = Inr (evs, self', d')
       \<and> evs = [RecomputeStats ''sbi'', WriteStatsCache ''sbi'', ReuseStats ''gk_sbs'']
       \<and> dataframe self' = None \<and> cache_file d' = Some ''cached''
       \<and> stats_cache d' ''sbi'' = Some ''nothing/by sbi''
       \<and> stats_cache d' ''gk_sbs'' = Some ''old''
       \<and> all_stats_per_format self' = [(''sbi'', [''nothing/by sbi'']), (''gk_sbs'', [''old''])])
   \<and> (\<exists>evs self' d'.
         DomainAnalyser_init ''built''
             (\<lambda>df props. (case df of None \<Rightarrow> ''nothing'' | Some x \<Rightarrow> x) @ ''/'' @ props)
             (\<lambda>s. [s]) (RBool False) False
             [(''sbi'', ''by sbi''), (''gk_sbs'', ''by size'')]
             \<lparr>cache_file = Some ''cached'', stats_cache = [''gk_sbs'' \<mapsto> ''old'']\<rparr>
           = Inr (evs, self', d')
       \<and> evs = [BuildFromSources, WriteDatasetCache, RecomputeStats ''sbi'', WriteStatsCache ''sbi'',
                 RecomputeStats ''gk_sbs'', WriteStatsCache ''gk_sbs'']
       \<and> dataframe self' = Some ''built'' \<and> cache_file d' = Some ''built''
       \<and> stats_cache d' ''sbi'' = Some ''built/by sbi''
       \<and> stats_cache d' ''gk_sbs'' = Some ''built/by size''
       \<and> all_stats_per_format self'
           = [(''sbi'', [''built/by sbi'']), (''gk_sbs'', [''built/by size''])])
   \<and> (\<exists>evs self' d'.
         DomainAnalyser_init ''built''
             (\<lambda>df props. (case df of None \<Rightarrow> ''nothing'' | Some x \<Rightarrow> x) @ ''/'' @ props)
             (\<lambda>s. [s]) (RBool True) False
             [(''sbi'', ''by sbi''), (''gk_sbs'', ''by size'')]
             \<lparr>cache_file = Some ''cached'', stats_cache = [''gk_sbs'' \<mapsto> ''old'']\<rparr>
           = Inr (evs, self', d')
       \<and> evs = [LoadDatasetCache, RecomputeStats ''sbi'', WriteStatsCache ''sbi'',
                 RecomputeStats ''gk_sbs'', WriteStatsCache ''gk_sbs'']
       \<and> dataframe self' = Some ''cached'' \<and> cache_file d' = Some ''cached''
       \<and> stats_cache d' ''sbi'' = Some ''cached/by sbi''
       \<and> stats_cache d' ''gk_sbs'' = Some ''cached/by size'')
   \<and> (\<exists>evs self' d'.
         DomainAnalyser_init ''built''
             (\<lambda>df props. (case df of None \<Rightarrow> ''nothing'' | Some x \<Rightarrow> x) @ ''/'' @ props)
             (\<lambda>s. [s]) (RInt 2) False
             [(''sbi'', ''by sbi''), (''gk_sbs'', ''by size'')]
             \<lparr>cache_file = Some ''cached'', stats_cache = [''gk_sbs'' \<mapsto> ''old'']\<rparr>
           = Inr (evs, self', d')
       \<and> evs = [RecomputeStats ''sbi'', WriteStatsCache ''sbi'',
                 RecomputeStats ''gk_sbs'', WriteStatsCache ''gk_sbs'']
       \<and> dataframe self' = None \<and> cache_file d' = Some ''cached''
       \<and> stats_cache d' ''gk_sbs'' = Some ''nothing/by size'')
   \<and> (\<exists>evs self' d'.
         DomainAnalyser_init ''built''
             (\<lambda>df props. (case df of None \<Rightarrow> ''nothing'' | Some x \<Rightarrow> x) @ ''/'' @ props)
             (\<lambda>s. [s]) RNone False
             [(''sbi'', ''by sbi''), (''gk_sbs'', ''by size'')]
             \<lparr>cache_file = None, stats_cache = [''gk_sbs'' \<mapsto> ''old'']\<rparr>
           = Inr (evs, self', d')
       \<and> evs = [BuildFromSources, WriteDatasetCache, RecomputeStats ''sbi'', WriteStatsCache ''sbi'',
                 ReuseStats ''gk_sbs'']
       \<and> dataframe self' = Some ''built'' \<and> cache_file d' = Some ''built''
       \<and> stats_cache d' ''sbi'' = Some ''built/by sbi''
       \<and> stats_cache d' ''gk_sbs'' = Some ''old'')"
proof -
  let ?st = "[(''sbi'', ''by sbi''), (''gk_sbs'', ''by size'')]"
  let ?d = "\<lparr>cache_file = Some ''cached'', stats_cache = [''gk_sbs'' \<mapsto> ''old'']\<rparr>"
  let ?e = "\<lparr>cache_file = None :: string option, stats_cache = [''gk_sbs'' \<mapsto> ''old'']\<rparr>"
  have dn: "distinct (map fst ?st)" by simp
  show ?thesis
    using dn
      reset_state_machine [OF dn, of "''built''" "(\<lambda>df props. (case df of None \<Rightarrow> ''nothing'' | Some x \<Rightarrow> x) @ ''/'' @ props)" "\<lambda>s. [s]" RNone ?d]
      reset_state_machine [OF dn, of "''built''" "(\<lambda>df props. (case df of None \<Rightarrow> ''nothing'' | Some x \<Rightarrow> x) @ ''/'' @ props)" "\<lambda>s. [s]" "RBool False" ?d]
      reset_state_machine [OF dn, of "''built''" "(\<lambda>df props. (case df of None \<Rightarrow> ''nothing'' | Some x \<Rightarrow> x) @ ''/'' @ props)" "\<lambda>s. [s]" "RBool True" ?d]
      reset_state_machine [OF dn, of "''built''" "(\<lambda>df props. (case df of None \<Rightarrow> ''nothing'' | Some x \<Rightarrow> x) @ ''/'' @ props)" "\<lambda>s. [s]" "RInt 2" ?d]
      reset_state_machine [OF dn, of "''built''" "(\<lambda>df props. (case df of None \<Rightarrow> ''nothing'' | Some x \<Rightarrow> x) @ ''/'' @ props)" "\<lambda>s. [s]" RNone ?e]
    by (simp add: DomainAnalyser_init_def init_read_data_def read_data_def
        calculate_statistics_def dict_set_def Let_def)
qed

section \<open>Properties of the driver's constructor call\<close>

lemma bind_main_kwargs:
  "bind_keywords DomainAnalyser_params
     (main_kwargs reset output_file statistics gk_data variables weights translations)
   = Inl (TypeError ''gk_data'')"
  by (simp add: bind_keywords_def main_kwargs_def DomainAnalyser_params_def)

lemma main_arguments_kwargs:
  "main_arguments args settings chdir = Inr kwargs \<Longrightarrow>
   \<exists>output_file statistics gk_data variables weights translations.
     kwargs = main_kwargs (YBool (reset_flag args)) output_file statistics gk_data variables
                weights translations"
  unfolding main_arguments_def
  by (simp split: sum.splits option.splits) blast

lemma subscript_YMap:
  "YStr k \<in> fst ` set m \<Longrightarrow> \<exists>v. subscript (YMap m) k = Inr v"
proof -
  assume "YStr k \<in> fst ` set m"
  then have "map_of m (YStr k) \<noteq> None" by (simp add: map_of_eq_None_iff)
  then show ?thesis by (auto simp: subscript_def)
qed

text \<open>
  C3 as stated fails: the driver loads a settings document that lacks the section
  \<open>translations\<close>, or one whose section \<open>general\<close> is empty (\<open>null\<close>), and
  ends in \<open>KeyError\<close> or \<open>AttributeError\<close> before it gets to the constructor; the
  run does not end in the unexpected-keyword error.
\<close>

theorem main_raises_before_the_call:
  "main \<lparr>output_filename = None, working_directory = None, reset_flag = False\<rparr>
     (YMap [(YStr ''general'', YMap []), (YStr ''statistics'', YMap [])]) (\<lambda>wd. None)
   = Inl (KeyError ''translations'')
   \<and> main \<lparr>output_filename = None, working_directory = None, reset_flag = False\<rparr>
     (YMap [(YStr ''general'', YNull), (YStr ''statistics'', YMap []),
            (YStr ''translations'', YMap []), (YStr ''gk_data'', YMap []),
            (YStr ''variables'', YMap []), (YStr ''weight'', YStr ''ratio_units'')])
     (\<lambda>wd. None)
   = Inl (AttributeError ''get'')
   \<and> Inl (KeyError ''translations'') \<noteq> (Inl (TypeError ''gk_data'') :: py_error + (string \<times> yaml) list)
   \<and> Inl (AttributeError ''get'') \<noteq> (Inl (TypeError ''gk_data'') :: py_error + (string \<times> yaml) list)"
  by (simp add: main_def main_arguments_def subscript_def get_def output_file_of_def)

text \<open>
  C3, amended. \<open>gk_data\<close> is not a parameter of the constructor. For every command
  line, settings document and file system, whenever the driver gets to the constructor
  call, the call passes the keyword \<open>gk_data\<close> and raises \<open>TypeError\<close> on it, and
  so does the run; a run that does not get to the call ends in the exception raised
  before it; no run completes a construction. The driver gets to the call when the
  document is a mapping with the six sections, the output file and the working directory
  are obtained from the command line or the section \<open>general\<close>, and the working
  directory is entered.
\<close>

theorem main_call_passes_undeclared_gk_data:
  "''gk_data'' \<notin> set DomainAnalyser_params
   \<and> (\<forall>kwargs. main_arguments args settings chdir = Inr kwargs \<longrightarrow>
         ''gk_data'' \<in> fst ` set kwargs
         \<and> DomainAnalyser_call kwargs = Inl (TypeError ''gk_data'')
         \<and> main args settings chdir = Inl (TypeError ''gk_data''))
   \<and> (\<forall>e. main_arguments args settings chdir = Inl e \<longrightarrow> main args settings chdir = Inl e)
   \<and> isl (main args settings chdir)
   \<and> (\<forall>m general_settings output_file wd.
         settings = YMap m
         \<and> YStr ` {''statistics'', ''translations'', ''gk_data'', ''variables'', ''weight''}
             \<subseteq> fst ` set m
         \<and> map_of m (YStr ''general'') = Some general_settings
         \<and> output_file_of args general_settings = Inr output_file
         \<and> working_directory_of args general_settings = Inr wd
         \<and> chdir wd = None
         \<longrightarrow> main args settings chdir = Inl (TypeError ''gk_data''))"
proof -
  have np: "''gk_data'' \<notin> set DomainAnalyser_params"
    by (simp add: DomainAnalyser_params_def)
  have call: "''gk_data'' \<in> fst ` set kwargs
         \<and> DomainAnalyser_call kwargs = Inl (TypeError ''gk_data'')
         \<and> main args settings chdir = Inl (TypeError ''gk_data'')"
    if h: "main_arguments args settings chdir = Inr kwargs" for kwargs
  proof -
    from main_arguments_kwargs [OF h] obtain a1 a2 a3 a4 a5 a6
      where kw: "kwargs = main_kwargs (YBool (reset_flag args)) a1 a2 a3 a4 a5 a6"
      by blast
    have "''gk_data'' \<in> fst ` set kwargs" unfolding kw by (simp add: main_kwargs_def)
    moreover have c: "DomainAnalyser_call kwargs = Inl (TypeError ''gk_data'')"
      unfolding kw DomainAnalyser_call_def by (rule bind_main_kwargs)
    moreover have "main args settings chdir = Inl (TypeError ''gk_data'')"
      using h c by (simp add: main_def)
    ultimately show ?thesis by blast
  qed
  have early: "main args settings chdir = Inl e"
    if "main_arguments args settings chdir = Inl e" for e
    using that by (simp add: main_def)
  have l: "isl (main args settings chdir)"
  proof (cases "main_arguments args settings chdir")
    case (Inl e)
    then show ?thesis using early by simp
  next
    case (Inr kwargs)
    then show ?thesis using call by simp
  qed
  have reach: "main args settings chdir = Inl (TypeError ''gk_data'')"
    if h: "settings = YMap m
         \<and> YStr ` {''statistics'', ''translations'', ''gk_data'', ''variables'', ''weight''}
             \<subseteq> fst ` set m
         \<and> map_of m (YStr ''general'') = Some general_settings
         \<and> output_file_of args general_settings = Inr output_file
         \<and> working_directory_of args general_settings = Inr wd
         \<and> chdir wd = None"
    for m general_settings output_file wd
  proof -
    from h have g: "subscript settings ''general'' = Inr general_settings"
      by (simp add: subscript_def)
    from h obtain a2 a3 a4 a5 a6 where s:
      "subscript settings ''statistics'' = Inr a2" "subscript settings ''translations'' = Inr a3"
      "subscript settings ''gk_data'' = Inr a4" "subscript settings ''variables'' = Inr a5"
      "subscript settings ''weight'' = Inr a6"
    proof -
      have "\<exists>v. subscript settings k = Inr v"
        if "k \<in> {''statistics'', ''translations'', ''gk_data'', ''variables'', ''weight''}" for k
      proof -
        from that h have "YStr k \<in> fst ` set m" by blast
        then show ?thesis using subscript_YMap [of k m] h by simp
      qed
      then have "\<exists>v. subscript settings ''statistics'' = Inr v"
        "\<exists>v. subscript settings ''translations'' = Inr v"
        "\<exists>v. subscript settings ''gk_data'' = Inr v"
        "\<exists>v. subscript settings ''variables'' = Inr v"
        "\<exists>v. subscript settings ''weight'' = Inr v"
        by simp_all
      then show ?thesis using that by blast
    qed
    have "main_arguments args settings chdir
          = Inr (main_kwargs (YBool (reset_flag args)) output_file a2 a4 a5 a6 a3)"
      using h g s by (simp add: main_arguments_def)
    then show ?thesis using call by blast
  qed
  show ?thesis
  proof (intro conjI allI impI)
    show "''gk_data'' \<notin> set DomainAnalyser_params" by (rule np)
    show "''gk_data'' \<in> fst ` set kwargs"
      if "main_arguments args settings chdir = Inr kwargs" for kwargs
      using call [OF that] by blast
    show "DomainAnalyser_call kwargs = Inl (TypeError ''gk_data'')"
      if "main_arguments args settings chdir = Inr kwargs" for kwargs
      using call [OF that] by blast
    show "main args settings chdir = Inl (TypeError ''gk_data'')"
      if "main_arguments args settings chdir = Inr kwargs" for kwargs
      using call [OF that] by blast
    show "main args settings chdir = Inl e"
      if "main_arguments args settings chdir = Inl e" for e
      using that by (rule early)
    show "isl (main args settings chdir)" by (rule l)
    show "main args settings chdir = Inl (TypeError ''gk_data'')"
      if "settings = YMap m
         \<and> YStr ` {''statistics'', ''translations'', ''gk_data'', ''variables'', ''weight''}
             \<subseteq> fst ` set m
         \<and> map_of m (YStr ''general'') = Some general_settings
         \<and> output_file_of args general_settings = Inr output_file
         \<and> working_directory_of args general_settings = Inr wd
         \<and> chdir wd = None"
      for m general_settings output_file wd
      using that by (rule reach)
  qed
qed

theorem main_call_passes_undeclared_gk_data_witness:
  "main_arguments \<lparr>output_filename = None, working_directory = None, reset_flag = True\<rparr>
     (YMap [(YStr ''general'', YMap [(YStr ''working_directory'', YStr ''data'')]),
            (YStr ''statistics'', YMap [(YStr ''sbi'', YNull)]),
            (YStr ''translations'', YMap []), (YStr ''gk_data'', YInt 4),
            (YStr ''variables'', YMap []), (YStr ''weight'', YStr ''ratio_units'')])
     (\<lambda>wd. if wd = ''data'' then None else Some (FileNotFoundError wd))
   = Inr [(''reset'', YBool True), (''output_file'', YStr ''internet_nl_stats''),
          (''statistics'', YMap [(YStr ''sbi'', YNull)]), (''gk_data'', YInt 4),
          (''variables'', YMap []), (''weights'', YStr ''ratio_units''),
          (''translations'', YMap [])]
   \<and> ''gk_data'' \<in> fst ` set [(''reset'', YBool True), (''output_file'', YStr ''internet_nl_stats''),
          (''statistics'', YMap [(YStr ''sbi'', YNull)]), (''gk_data'', YInt 4),
          (''variables'', YMap []), (''weights'', YStr ''ratio_units''),
          (''translations'', YMap [])]
   \<and> main \<lparr>output_filename = None, working_directory = None, reset_flag = True\<rparr>
     (YMap [(YStr ''general'', YMap [(YStr ''working_directory'', YStr ''data'')]),
            (YStr ''statistics'', YMap [(YStr ''sbi'', YNull)]),
            (YStr ''translations'', YMap []), (YStr ''gk_data'', YInt 4),
            (YStr ''variables'', YMap []), (YStr ''weight'', YStr ''ratio_units'')])
     (\<lambda>wd. if wd = ''data'' then None else Some (FileNotFoundError wd))
   = Inl (TypeError ''gk_data'')
   \<and> main \<lparr>output_filename = None, working_directory = Some ''elsewhere'', reset_flag = True\<rparr>
     (YMap [(YStr ''general'', YMap [(YStr ''working_directory'', YStr ''data'')]),
            (YStr ''statistics'', YMap [(YStr ''sbi'', YNull)]),
            (YStr ''translations'', YMap []), (YStr ''gk_data'', YInt 4),
            (YStr ''variables'', YMap []), (YStr ''weight'', YStr ''ratio_units'')])
     (\<lambda>wd. if wd = ''data'' then None else Some (FileNotFoundError wd))
   = Inl (FileNotFoundError ''elsewhere'')"
proof -
  let ?S = "YMap [(YStr ''general'', YMap [(YStr ''working_directory'', YStr ''data'')]),
            (YStr ''statistics'', YMap [(YStr ''sbi'', YNull)]),
            (YStr ''translations'', YMap []), (YStr ''gk_data'', YInt 4),
            (YStr ''variables'', YMap []), (YStr ''weight'', YStr ''ratio_units'')]"
  let ?C = "\<lambda>wd. if wd = ''data'' then None else Some (FileNotFoundError wd)"
  let ?A = "\<lparr>output_filename = None, working_directory = None, reset_flag = True\<rparr>"
  let ?B = "\<lparr>output_filename = None, working_directory = Some ''elsewhere'', reset_flag = True\<rparr>"
  have a: "main_arguments ?A ?S ?C
     = Inr [(''reset'', YBool True), (''output_file'', YStr ''internet_nl_stats''),
          (''statistics'', YMap [(YStr ''sbi'', YNull)]), (''gk_data'', YInt 4),
          (''variables'', YMap []), (''weights'', YStr ''ratio_units''),
          (''translations'', YMap [])]"
    by (simp add: main_arguments_def subscript_def get_def output_file_of_def
        working_directory_of_def pathlib_Path_def main_kwargs_def)
  have b: "main_arguments ?B ?S ?C = Inl (FileNotFoundError ''elsewhere'')"
    by (simp add: main_arguments_def subscript_def get_def output_file_of_def
        working_directory_of_def pathlib_Path_def main_kwargs_def)
  show ?thesis
    using main_call_passes_undeclared_gk_data [of ?A ?S ?C]
      main_call_passes_undeclared_gk_data [of ?B ?S ?C] a b
    by simp
qed

section \<open>Properties of the sheet names\<close>

lemma sheet_fold:
  "SheetName ` UNIV \<inter> set sheets = {} \<Longrightarrow>
   snd (snd (foldl (sheet_step r) (sheets, cnt, written) names))
   = written @ map (\<lambda>fb. take 32 (apply_sheet_renames r fb)) names"
proof (induction names arbitrary: sheets cnt written)
  case Nil
  show ?case by simp
next
  case (Cons n ns)
  let ?s = "take 32 (apply_sheet_renames r n)"
  have notin: "SheetName x \<notin> set sheets" for x using Cons.prems by auto
  have step: "sheet_step r (sheets, cnt, written) n = (sheets @ [SheetsList], cnt + 1, written @ [?s])"
    using notin by (simp add: sheet_step_def Let_def)
  have inv: "SheetName ` UNIV \<inter> set (sheets @ [SheetsList]) = {}"
    using Cons.prems by auto
  show ?case
    using Cons.IH [OF inv, of "cnt + 1" "written @ [?s]"] step by simp
qed

lemma write_statistics_sheets_eq:
  "write_statistics_sheets r names = map (\<lambda>fb. take 32 (apply_sheet_renames r fb)) names"
  using sheet_fold [of "[]" r 0 "[]" names] by (simp add: write_statistics_sheets_def)

text \<open>
  C6. The claim: a name that has already been used as a sheet name in the same export is
  replaced by its first 30 characters and the two-digit counter. The loop appends the list
  \<open>sheets\<close> to itself instead of the name, so the membership test never succeeds
  (\<open>write_statistics_sheets_eq\<close>): two breakdowns that agree on their first 32
  characters get the same sheet name, where the loop as claimed would give the second one
  the suffix \<open>01\<close>.
\<close>

theorem write_statistics_sheet_names_collide:
  "write_statistics_sheets None
     [''breakdown_by_company_size_class_2019'', ''breakdown_by_company_size_class_2020'']
   = [''breakdown_by_company_size_class_'', ''breakdown_by_company_size_class_'']
   \<and> claimed_sheets None
     [''breakdown_by_company_size_class_2019'', ''breakdown_by_company_size_class_2020'']
   = [''breakdown_by_company_size_class_'', ''breakdown_by_company_size_clas01'']"
  by code_simp

section \<open>Properties of the exported columns\<close>

lemma find_filter_same:
  "(\<And>x. x \<in> set xs \<Longrightarrow> Q x \<Longrightarrow> P x) \<Longrightarrow> find Q (filter P xs) = find Q xs"
  by (induction xs) auto

lemma find_lower_Some:
  assumes "find (\<lambda>col. lower col = k) cols = Some col"
  shows "col \<in> set cols" and "lower col = k"
  using assms by (auto simp: find_Some_iff)

lemma count_pos_find:
  assumes "count_list (map lower cols) k > 0"
  shows "\<exists>col. find (\<lambda>col. lower col = k) cols = Some col"
proof -
  from assms have "k \<in> set (map lower cols)"
    by (metis count_notin less_numeral_extra(3))
  then have "\<exists>x \<in> set cols. lower x = k" by auto
  then have "find (\<lambda>col. lower col = k) cols \<noteq> None"
    by (auto simp: find_None_iff)
  then show ?thesis by auto
qed

lemma write_data_step_filter:
  assumes kP: "k \<notin> set P"
  shows "write_data_step (filter (\<lambda>c. \<not> (lower c \<in> set P \<and> dropped cols c)) cols)
           (k, count_list (map lower cols) k)
         = filter (\<lambda>c. \<not> (lower c \<in> set (k # P) \<and> dropped cols c)) cols"
proof (cases "count_list (map lower cols) k > 1")
  case False
  then have "\<And>c. lower c = k \<Longrightarrow> \<not> dropped cols c"
    by (auto simp: dropped_def)
  then have "(\<lambda>c. \<not> (lower c \<in> set (k # P) \<and> dropped cols c))
           = (\<lambda>c. \<not> (lower c \<in> set P \<and> dropped cols c))"
    by auto
  with False show ?thesis by (simp add: write_data_step_def)
next
  case True
  let ?cs = "filter (\<lambda>c. \<not> (lower c \<in> set P \<and> dropped cols c)) cols"
  from True obtain col where f: "find (\<lambda>col. lower col = k) cols = Some col"
    using count_pos_find [of cols k] by auto
  have f': "find (\<lambda>col. lower col = k) ?cs = Some col"
    using find_filter_same [of cols "\<lambda>col. lower col = k" "\<lambda>c. \<not> (lower c \<in> set P \<and> dropped cols c)"]
      kP f by auto
  have lk: "lower col = k" using find_lower_Some [OF f] by simp
  have iff: "(c \<noteq> col \<and> \<not> (lower c \<in> set P \<and> dropped cols c))
             = (\<not> (lower c \<in> set (k # P) \<and> dropped cols c))" for c
  proof (cases "lower c = k")
    case True
    then have "dropped cols c = (c = col)"
      using f \<open>1 < count_list (map lower cols) k\<close> by (auto simp: dropped_def)
    with True kP show ?thesis by auto
  next
    case False
    with lk show ?thesis by auto
  qed
  have "write_data_step ?cs (k, count_list (map lower cols) k) = filter (\<lambda>c. c \<noteq> col) ?cs"
    using True f' by (simp add: write_data_step_def drop_first_match_def)
  also have "\<dots> = filter (\<lambda>c. c \<noteq> col \<and> \<not> (lower c \<in> set P \<and> dropped cols c)) cols"
    by (simp add: conj_commute)
  also have "\<dots> = filter (\<lambda>c. \<not> (lower c \<in> set (k # P) \<and> dropped cols c)) cols"
    using iff by presburger
  finally show ?thesis .
qed

lemma write_data_fold:
  "distinct ks \<Longrightarrow> set ks \<inter> set P = {} \<Longrightarrow>
   foldl write_data_step (filter (\<lambda>c. \<not> (lower c \<in> set P \<and> dropped cols c)) cols)
      (map (\<lambda>k. (k, count_list (map lower cols) k)) ks)
   = filter (\<lambda>c. \<not> (lower c \<in> set (rev ks @ P) \<and> dropped cols c)) cols"
proof (induction ks arbitrary: P)
  case Nil
  show ?case by simp
next
  case (Cons k ks)
  from Cons.prems have kP: "k \<notin> set P" and d: "distinct ks"
    and disj: "set ks \<inter> set (k # P) = {}" by auto
  show ?case
    using Cons.IH [OF d disj] write_data_step_filter [OF kP, of cols]
    by simp
qed

lemma first_occurrences_props [simp]:
  "distinct (first_occurrences xs)" "set (first_occurrences xs) = set xs"
  by (simp_all add: first_occurrences_def)

lemma write_data_columns_eq:
  "write_data_columns cols = filter (\<lambda>c. \<not> dropped cols c) cols"
proof -
  have "write_data_columns cols
        = foldl write_data_step (filter (\<lambda>c. \<not> (lower c \<in> set [] \<and> dropped cols c)) cols)
            (map (\<lambda>k. (k, count_list (map lower cols) k)) (first_occurrences (map lower cols)))"
    by (simp add: write_data_columns_def Counter_def)
  also have "\<dots> = filter (\<lambda>c. \<not> (lower c \<in> set (rev (first_occurrences (map lower cols)) @ [])
                                   \<and> dropped cols c)) cols"
    by (rule write_data_fold) simp_all
  also have "\<dots> = filter (\<lambda>c. \<not> dropped cols c) cols"
    by (rule filter_cong) auto
  finally show ?thesis .
qed

lemma count_list_lower:
  "count_list (map lower cols) k = length (filter (\<lambda>x. lower x = k) cols)"
  by (induction cols) auto

lemma find_filter_hd:
  "find P xs = (case filter P xs of [] \<Rightarrow> None | x # _ \<Rightarrow> Some x)"
  by (induction xs) auto

lemma dropped_group:
  "lower x = lower c \<Longrightarrow>
   dropped cols x = (length (group_of cols c) > 1 \<and> hd (group_of cols c) = x)"
  by (auto simp: dropped_def group_of_def count_list_lower find_filter_hd split: list.splits)

lemma group_of_write_data_columns:
  "group_of (write_data_columns cols) c
   = filter (\<lambda>x. \<not> (length (group_of cols c) > 1 \<and> hd (group_of cols c) = x)) (group_of cols c)"
proof -
  have "group_of (write_data_columns cols) c
        = filter (\<lambda>x. lower x = lower c \<and> \<not> dropped cols x) cols"
    by (simp add: write_data_columns_eq group_of_def conj_commute)
  also have "\<dots> = filter (\<lambda>x. lower x = lower c
                 \<and> \<not> (length (group_of cols c) > 1 \<and> hd (group_of cols c) = x)) cols"
  proof (rule filter_cong)
    fix x
    show "(lower x = lower c \<and> \<not> dropped cols x)
        = (lower x = lower c \<and> \<not> (length (group_of cols c) > 1 \<and> hd (group_of cols c) = x))"
      using dropped_group [of x c cols] by blast
  qed simp
  also have "\<dots> = filter (\<lambda>x. \<not> (length (group_of cols c) > 1 \<and> hd (group_of cols c) = x))
                      (group_of cols c)"
    by (simp add: group_of_def conj_commute)
  finally show ?thesis .
qed

text \<open>
  C7 as stated fails: of the two columns \<open>Name\<close> and \<open>name\<close> the export drops
  the first and keeps the second, where keeping the first occurrence of each group would
  keep \<open>Name\<close>.
\<close>

theorem write_data_keeps_later_column:
  "write_data_columns [''be_id'', ''Name'', ''name''] = [''be_id'', ''name'']
   \<and> keep_first_per_group [] [''be_id'', ''Name'', ''name''] = [''be_id'', ''Name'']
   \<and> write_data_columns [''be_id'', ''Name'', ''name'']
       \<noteq> keep_first_per_group [] [''be_id'', ''Name'', ''name'']"
  by code_simp

text \<open>
  C7, amended. For every list of column names and every group of two differently spelled
  names that agree up to case, the export step drops the first column of the group and
  keeps the second, so that exactly one column of the group, the later one, is written; a
  column whose name agrees with no other up to case is kept; and the columns that are
  written are in the order they had.
\<close>

theorem write_data_columns_keep_later:
  "(\<forall>c \<in> set cols. \<forall>a b. group_of cols c = [a, b] \<and> a \<noteq> b
        \<longrightarrow> group_of (write_data_columns cols) c = [b]
            \<and> a \<notin> set (write_data_columns cols) \<and> b \<in> set (write_data_columns cols))
   \<and> (\<forall>c \<in> set cols. group_of cols c = [c]
        \<longrightarrow> group_of (write_data_columns cols) c = [c] \<and> c \<in> set (write_data_columns cols))
   \<and> subseq (write_data_columns cols) cols"
proof (intro conjI ballI allI impI)
  fix c a b
  assume g: "group_of cols c = [a, b] \<and> a \<noteq> b"
  then show g': "group_of (write_data_columns cols) c = [b]"
    by (simp add: group_of_write_data_columns)
  then have "b \<in> set (group_of (write_data_columns cols) c)" by simp
  then show "b \<in> set (write_data_columns cols)" by (simp add: group_of_def)
  have "a \<in> set (group_of cols c)" using g by simp
  then have la: "lower a = lower c" by (simp add: group_of_def)
  show "a \<notin> set (write_data_columns cols)"
  proof
    assume "a \<in> set (write_data_columns cols)"
    with la have "a \<in> set (group_of (write_data_columns cols) c)" by (simp add: group_of_def)
    with g' g show False by simp
  qed
next
  fix c
  assume g: "group_of cols c = [c]"
  then show g': "group_of (write_data_columns cols) c = [c]"
    by (simp add: group_of_write_data_columns)
  then have "c \<in> set (group_of (write_data_columns cols) c)" by simp
  then show "c \<in> set (write_data_columns cols)" by (simp add: group_of_def)
next
  show "subseq (write_data_columns cols) cols"
    by (simp add: write_data_columns_eq)
qed

theorem write_data_columns_keep_later_witness:
  "write_data_columns [''be_id'', ''Name'', ''sbi'', ''name''] = [''be_id'', ''sbi'', ''name'']
   \<and> group_of [''be_id'', ''Name'', ''sbi'', ''name''] ''name'' = [''Name'', ''name'']
   \<and> group_of (write_data_columns [''be_id'', ''Name'', ''sbi'', ''name'']) ''name'' = [''name'']
   \<and> group_of [''be_id'', ''Name'', ''sbi'', ''name''] ''sbi'' = [''sbi'']
   \<and> group_of (write_data_columns [''be_id'', ''Name'', ''sbi'', ''name'']) ''sbi'' = [''sbi'']"
proof -
  let ?cols = "[''be_id'', ''Name'', ''sbi'', ''name'']"
  have w: "write_data_columns ?cols = [''be_id'', ''sbi'', ''name'']" by code_simp
  have g1: "group_of ?cols ''name'' = [''Name'', ''name'']" by code_simp
  have g2: "group_of ?cols ''sbi'' = [''sbi'']" by code_simp
  have ne: "''Name'' \<noteq> ''name''" by simp
  have m1: "''name'' \<in> set ?cols" and m2: "''sbi'' \<in> set ?cols" by simp_all
  from write_data_columns_keep_later [of ?cols] m1 g1 ne
  have r1: "group_of (write_data_columns ?cols) ''name'' = [''name'']" by blast
  from write_data_columns_keep_later [of ?cols] m2 g2
  have r2: "group_of (write_data_columns ?cols) ''sbi'' = [''sbi'']" by blast
  from w g1 g2 r1 r2 show ?thesis by blast
qed

section \<open>Properties of the option mask\<close>

lemma get_option_mask_dict:
  "map_of variables (strip_option_suffix (variable r)) = Some ''dict'' \<Longrightarrow>
   get_option_mask (r # rows) variables
   = Inr (map (\<lambda>row. level2 row \<in> {''Passed'', ''Yes'', ''Good''}) (r # rows))"
  by (auto simp: get_option_mask_def)

lemma get_option_mask_other:
  "map_of variables (strip_option_suffix (variable r)) = Some t \<Longrightarrow> t \<noteq> ''dict'' \<Longrightarrow>
   get_option_mask (r # rows) variables = Inr (replicate (length (r # rows)) True)"
  by (simp add: get_option_mask_def map_replicate_const)

text \<open>
  C5. The claim: the mask is available in a form that takes the question type as a
  parameter, with the same result as the form that looks the type up. \<open>get_option_mask\<close>
  declares \<open>question_df\<close> and \<open>variables\<close> only, and \<open>make_plots\<close> calls it with
  the keyword \<open>question_type\<close>: whatever the frame, the metadata and the type, that call
  raises \<open>TypeError\<close> and returns no mask. The form that looks the type up selects
  the rows as claimed (\<open>get_option_mask_dict\<close>, \<open>get_option_mask_other\<close>).
\<close>

theorem make_plots_mask_call_raises:
  "make_plots_mask_call question_df variables question_type = Inl (TypeError ''question_type'')"
  by (simp add: make_plots_mask_call_def bind_keywords_def get_option_mask_params_def)

section \<open>Properties of the distinct values of a column\<close>

lemma same_value_refl [simp]: "same_value a a"
  by (simp add: same_value_def)

lemma same_value_sym: "same_value a b \<Longrightarrow> same_value b a"
  by (auto simp: same_value_def)

lemma same_value_trans: "same_value a b \<Longrightarrow> same_value b c \<Longrightarrow> same_value a c"
  by (auto simp: same_value_def)

lemma same_value_plain: "\<not> is_nan a \<Longrightarrow> same_value a b = (a = b)"
  by (auto simp: same_value_def)

lemma unique_from_subset: "set (unique_from seen col) \<subseteq> set col"
  by (induction col arbitrary: seen) auto

lemma unique_from_complete:
  "v \<in> set col \<Longrightarrow> (\<exists>u \<in> set (unique_from seen col). same_value v u) \<or> (\<exists>s \<in> set seen. same_value v s)"
proof (induction col arbitrary: seen)
  case Nil
  then show ?case by simp
next
  case (Cons x col)
  show ?case
  proof (cases "v = x")
    case True
    then show ?thesis by (auto simp: list_ex_iff)
  next
    case False
    with Cons.prems have v: "v \<in> set col" by simp
    show ?thesis
    proof (cases "list_ex (same_value x) seen")
      case True
      then show ?thesis using Cons.IH [OF v, of seen] by simp
    next
      case False
      then show ?thesis using Cons.IH [OF v, of "x # seen"] by auto
    qed
  qed
qed

lemma unique_subset: "set (unique col) \<subseteq> set col"
  by (simp add: unique_def unique_from_subset)

lemma unique_complete: "v \<in> set col \<Longrightarrow> \<exists>u \<in> set (unique col). same_value v u"
  using unique_from_complete [of v col "[]"] by (simp add: unique_def)

lemma unique_plain: "\<not> is_nan v \<Longrightarrow> (v \<in> set (unique col)) = (v \<in> set col)"
proof
  assume "v \<in> set (unique col)"
  then show "v \<in> set col" using unique_subset by blast
next
  assume n: "\<not> is_nan v" and "v \<in> set col"
  then obtain u where "u \<in> set (unique col)" "same_value v u" using unique_complete by blast
  then show "v \<in> set (unique col)" using n by (simp add: same_value_plain)
qed

section \<open>Properties of the value translation\<close>

lemma pd_lookup_plain: "\<not> is_nan v \<Longrightarrow> pd_lookup tr v = map_of tr v"
proof (induction tr)
  case Nil
  show ?case by (simp add: pd_lookup_def)
next
  case (Cons kv tr)
  obtain k t where kv: "kv = (k, t)" by (cases kv)
  have "same_value k v = (k = v)"
    using Cons.prems by (auto simp: same_value_def)
  then show ?case
    using Cons kv by (auto simp: pd_lookup_def)
qed

text \<open>
  C4 as stated fails: with the translation \<open>{A: 1}\<close> on a column holding \<open>A\<close> and
  \<open>B\<close>, the cell \<open>B\<close> becomes \<open>NaN\<close>; it does not stay \<open>B\<close>.
\<close>

theorem translate_column_uncovered_counterexample:
  "translate_column (Some [(Str ''A'', Num 1)]) [Str ''A'', Str ''B''] = [Num 1, NaN 0]
   \<and> translate_keeping [(Str ''A'', Num 1)] [Str ''A'', Str ''B''] = [Num 1, Str ''B'']
   \<and> translate_column (Some [(Str ''A'', Num 1)]) [Str ''A'', Str ''B''] ! 1 \<noteq> Str ''B''"
  by (simp add: translate_column_def translate_keeping_def series_map_def unique_def
      pd_lookup_def same_value_def is_nan_def)

text \<open>
  C4, amended. When some key of the translation occurs among the values of the column,
  every cell holding a key is replaced by the value the translation gives that key, and
  every cell holding a value that is not a key becomes \<open>NaN\<close> (for a cell that is itself
  a NaN, any NaN among the keys counts as its key); when no key occurs, the column is left
  as it is.
\<close>

theorem translate_column_uncovered_missing:
  "((\<exists>k \<in> fst ` set tr. k \<in> set (unique col)) \<longrightarrow>
      length (translate_column (Some tr) col) = length col
      \<and> (\<forall>i < length col. \<forall>t. \<not> is_nan (col ! i) \<and> map_of tr (col ! i) = Some t
            \<longrightarrow> translate_column (Some tr) col ! i = t)
      \<and> (\<forall>i < length col. \<not> is_nan (col ! i) \<and> col ! i \<notin> fst ` set tr
            \<longrightarrow> translate_column (Some tr) col ! i = NaN 0)
      \<and> (\<forall>i < length col. \<forall>t. pd_lookup tr (col ! i) = Some t
            \<longrightarrow> translate_column (Some tr) col ! i = t)
      \<and> (\<forall>i < length col. pd_lookup tr (col ! i) = None
            \<longrightarrow> translate_column (Some tr) col ! i = NaN 0))
   \<and> (\<not> (\<exists>k \<in> fst ` set tr. k \<in> set (unique col)) \<longrightarrow> translate_column (Some tr) col = col)"
proof -
  have ex: "list_ex (\<lambda>k. k \<in> set (unique col)) (map fst tr)
            = (\<exists>k \<in> fst ` set tr. k \<in> set (unique col))"
    by (auto simp: list_ex_iff)
  have none: "map_of tr v = None" if "v \<notin> fst ` set tr" for v
    using that by (simp add: map_of_eq_None_iff)
  show ?thesis
    by (auto simp: translate_column_def ex series_map_def none pd_lookup_plain)
qed

theorem translate_column_uncovered_missing_witness:
  "Str ''A'' \<in> fst ` set [(Str ''A'', Num 1)] \<and> Str ''A'' \<in> set (unique [Str ''A'', Str ''B''])
   \<and> map_of [(Str ''A'', Num 1)] ([Str ''A'', Str ''B''] ! 0) = Some (Num 1)
   \<and> translate_column (Some [(Str ''A'', Num 1)]) [Str ''A'', Str ''B''] ! 0 = Num 1
   \<and> [Str ''A'', Str ''B''] ! 1 \<notin> fst ` set [(Str ''A'', Num 1)]
   \<and> translate_column (Some [(Str ''A'', Num 1)]) [Str ''A'', Str ''B''] ! 1 = NaN 0
   \<and> translate_column (Some [(Str ''A'', Num 1)]) [Str ''C''] = [Str ''C'']"
proof -
  have u: "unique [Str ''A'', Str ''B''] = [Str ''A'', Str ''B'']" "unique [Str ''C''] = [Str ''C'']"
    by (simp_all add: unique_def same_value_def is_nan_def)
  show ?thesis
    using translate_column_uncovered_missing [of "[(Str ''A'', Num 1)]" "[Str ''A'', Str ''B'']"]
      translate_column_uncovered_missing [of "[(Str ''A'', Num 1)]" "[Str ''C'']"] u
    by (simp add: is_nan_def)
qed

section \<open>Properties of the merged dataset\<close>

lemma set_merge_inner:
  "set (merge_inner key_l key_r records tables)
   = {(r, t). r \<in> set records \<and> t \<in> set tables \<and> join_eq (key_l r) (key_r t)}"
  by (auto simp: merge_inner_def)

lemma drop_duplicated_subset:
  "set (drop_duplicated f seen xs) \<subseteq> set xs"
  by (induction xs arbitrary: seen) auto

lemma drop_duplicated_not_seen:
  "m \<in> set (drop_duplicated f seen xs) \<Longrightarrow> s \<in> set seen \<Longrightarrow> \<not> same_value (f m) s"
proof (induction xs arbitrary: seen)
  case Nil
  then show ?case by simp
next
  case (Cons x xs)
  show ?case
  proof (cases "list_ex (same_value (f x)) seen")
    case True
    with Cons.prems have "m \<in> set (drop_duplicated f seen xs)" by simp
    then show ?thesis using Cons.IH Cons.prems(2) by blast
  next
    case False
    with Cons.prems have "m = x \<or> m \<in> set (drop_duplicated f (f x # seen) xs)" by auto
    then show ?thesis
    proof
      assume "m = x"
      with False Cons.prems(2) show ?thesis by (auto simp: list_ex_iff)
    next
      assume "m \<in> set (drop_duplicated f (f x # seen) xs)"
      then show ?thesis using Cons.IH [of "f x # seen"] Cons.prems(2) by simp
    qed
  qed
qed

lemma drop_duplicated_distinct:
  "distinct (map f (drop_duplicated f seen xs))"
proof (induction xs arbitrary: seen)
  case Nil
  show ?case by simp
next
  case (Cons x xs)
  have "f x \<notin> f ` set (drop_duplicated f (f x # seen) xs)"
  proof
    assume "f x \<in> f ` set (drop_duplicated f (f x # seen) xs)"
    then obtain m where m: "m \<in> set (drop_duplicated f (f x # seen) xs)" and e: "f m = f x"
      by auto
    from drop_duplicated_not_seen [OF m, of "f x"] have "\<not> same_value (f m) (f x)" by simp
    with e show False by simp
  qed
  then show ?case using Cons.IH by auto
qed

lemma drop_duplicated_first:
  "m \<in> set (drop_duplicated f seen xs) \<Longrightarrow> find (\<lambda>x. same_value (f x) (f m)) xs = Some m"
proof (induction xs arbitrary: seen)
  case Nil
  then show ?case by simp
next
  case (Cons x xs)
  show ?case
  proof (cases "list_ex (same_value (f x)) seen")
    case True
    then obtain s where s: "s \<in> set seen" "same_value (f x) s" by (auto simp: list_ex_iff)
    from True Cons.prems have m: "m \<in> set (drop_duplicated f seen xs)" by simp
    have "\<not> same_value (f x) (f m)"
    proof
      assume "same_value (f x) (f m)"
      then have "same_value (f m) s"
        using s(2) by (blast intro: same_value_sym same_value_trans)
      with drop_duplicated_not_seen [OF m s(1)] show False by simp
    qed
    with Cons.IH [OF m] show ?thesis by simp
  next
    case False
    with Cons.prems have "m = x \<or> m \<in> set (drop_duplicated f (f x # seen) xs)" by auto
    then show ?thesis
    proof
      assume "m = x"
      then show ?thesis by simp
    next
      assume m: "m \<in> set (drop_duplicated f (f x # seen) xs)"
      from drop_duplicated_not_seen [OF m, of "f x"] have "\<not> same_value (f m) (f x)" by simp
      then have "\<not> same_value (f x) (f m)" by (blast intro: same_value_sym)
      with Cons.IH [OF m] show ?thesis by simp
    qed
  qed
qed

lemma drop_duplicated_complete:
  "x \<in> set xs \<Longrightarrow>
   (\<exists>m \<in> set (drop_duplicated f seen xs). same_value (f m) (f x))
   \<or> (\<exists>s \<in> set seen. same_value (f x) s)"
proof (induction xs arbitrary: seen)
  case Nil
  then show ?case by simp
next
  case (Cons y xs)
  show ?case
  proof (cases "x = y")
    case True
    then show ?thesis by (auto simp: list_ex_iff)
  next
    case False
    with Cons.prems have x: "x \<in> set xs" by simp
    show ?thesis
    proof (cases "list_ex (same_value (f y)) seen")
      case True
      then show ?thesis using Cons.IH [OF x, of seen] by simp
    next
      case False
      from Cons.IH [OF x, of "f y # seen"]
      show ?thesis using False by (auto intro: same_value_sym)
    qed
  qed
qed

text \<open>
  C2. For every pair of frames, the dataset built by the merge, the \<open>dropna\<close> and the
  removal of duplicates has no two rows with the same identifier; every row has a weight
  that is not missing; every row joins a register row and a scan row with the same key (so
  a row of one frame whose key does not occur in the other is not in it); of the joined
  rows with a weight, the one kept for an identifier is the first with that identifier;
  and every joined row with a weight has its identifier in the dataset.
\<close>

theorem merged_dataset_invariant:
  fixes key_l :: "'r \<Rightarrow> cell" and key_r :: "'t \<Rightarrow> cell" and be_id :: "'r \<Rightarrow> cell"
    and weight :: "'r \<times> 't \<Rightarrow> cell" and records :: "'r list" and tables :: "'t list"
  defines "D \<equiv> build_dataframe key_l key_r be_id weight records tables"
  shows "distinct (map (\<lambda>m. be_id (fst m)) D)
     \<and> (\<forall>m \<in> set D. \<forall>m' \<in> set D. same_value (be_id (fst m)) (be_id (fst m')) \<longrightarrow> m = m')
     \<and> (\<forall>m \<in> set D. \<not> isna (weight m))
     \<and> (\<forall>m \<in> set D. fst m \<in> set records \<and> snd m \<in> set tables
           \<and> join_eq (key_l (fst m)) (key_r (snd m))
           \<and> (\<not> isna (key_l (fst m)) \<longrightarrow> key_l (fst m) = key_r (snd m)))
     \<and> (\<forall>m \<in> set D.
           find (\<lambda>x. same_value (be_id (fst x)) (be_id (fst m)))
             (dropna weight (merge_inner key_l key_r records tables)) = Some m)
     \<and> (\<forall>r \<in> set records. \<forall>t \<in> set tables.
           join_eq (key_l r) (key_r t) \<and> \<not> isna (weight (r, t))
           \<longrightarrow> (\<exists>m \<in> set D. same_value (be_id (fst m)) (be_id r)))"
proof -
  let ?J = "merge_inner key_l key_r records tables"
  let ?f = "\<lambda>m. be_id (fst m)"
  have D: "D = drop_duplicated ?f [] (dropna weight ?J)"
    by (simp add: D_def build_dataframe_def)
  have sub: "set D \<subseteq> set (dropna weight ?J)"
    unfolding D by (rule drop_duplicated_subset)
  have a: "distinct (map ?f D)"
    unfolding D by (rule drop_duplicated_distinct)
  have d: "\<forall>m \<in> set D. find (\<lambda>x. same_value (?f x) (?f m)) (dropna weight ?J) = Some m"
    unfolding D using drop_duplicated_first [of _ ?f "[]" "dropna weight ?J"] by blast
  have a': "\<forall>m \<in> set D. \<forall>m' \<in> set D. same_value (?f m) (?f m') \<longrightarrow> m = m'"
  proof (intro ballI impI)
    fix m m'
    assume m: "m \<in> set D" and m': "m' \<in> set D" and s: "same_value (?f m) (?f m')"
    have "same_value (?f x) (?f m) = same_value (?f x) (?f m')" for x
      using s by (blast intro: same_value_sym same_value_trans)
    then have "find (\<lambda>x. same_value (?f x) (?f m)) (dropna weight ?J)
             = find (\<lambda>x. same_value (?f x) (?f m')) (dropna weight ?J)"
      by (intro find_cong) simp_all
    with d m m' show "m = m'" by simp
  qed
  have b: "\<forall>m \<in> set D. \<not> isna (weight m)"
    using sub by (auto simp: dropna_def)
  have c: "\<forall>m \<in> set D. fst m \<in> set records \<and> snd m \<in> set tables
           \<and> join_eq (key_l (fst m)) (key_r (snd m))
           \<and> (\<not> isna (key_l (fst m)) \<longrightarrow> key_l (fst m) = key_r (snd m))"
    using sub by (auto simp: dropna_def set_merge_inner join_eq_def)
  have e: "\<forall>r \<in> set records. \<forall>t \<in> set tables.
           join_eq (key_l r) (key_r t) \<and> \<not> isna (weight (r, t))
           \<longrightarrow> (\<exists>m \<in> set D. same_value (?f m) (be_id r))"
  proof (intro ballI impI)
    fix r t
    assume "r \<in> set records" "t \<in> set tables"
      "join_eq (key_l r) (key_r t) \<and> \<not> isna (weight (r, t))"
    then have "(r, t) \<in> set (dropna weight ?J)"
      by (simp add: dropna_def set_merge_inner)
    from drop_duplicated_complete [OF this, of ?f "[]"]
    show "\<exists>m \<in> set D. same_value (?f m) (be_id r)"
      unfolding D by simp
  qed
  from a a' b c d e show ?thesis by blast
qed

theorem merged_dataset_invariant_witness:
  "build_dataframe fst fst (\<lambda>r. fst (snd r)) (\<lambda>m. snd (snd (fst m)))
     [(Str ''a'', Num 1, Num 5), (Str ''b'', Num 2, NaN 0), (Str ''a'', Num 1, Num 6),
      (PyNone, Num 3, Num 1), (Str ''z'', Num 4, Num 1), (Str ''b'', Num 5, PyNone)]
     [(Str ''a'', ''p''), (Str ''a'', ''q''), (Str ''c'', ''r''), (PyNone, ''s''), (Str ''b'', ''t'')]
   = [((Str ''a'', Num 1, Num 5), (Str ''a'', ''p'')), ((PyNone, Num 3, Num 1), (PyNone, ''s''))]
   \<and> distinct (map (\<lambda>m. fst (snd (fst m)))
       (build_dataframe fst fst (\<lambda>r. fst (snd r)) (\<lambda>m. snd (snd (fst m)))
         [(Str ''a'', Num 1, Num 5), (Str ''b'', Num 2, NaN 0), (Str ''a'', Num 1, Num 6),
          (PyNone, Num 3, Num 1), (Str ''z'', Num 4, Num 1), (Str ''b'', Num 5, PyNone)]
         [(Str ''a'', ''p''), (Str ''a'', ''q''), (Str ''c'', ''r''), (PyNone, ''s''), (Str ''b'', ''t'')]))"
proof -
  let ?R = "[(Str ''a'', Num 1, Num 5), (Str ''b'', Num 2, NaN 0), (Str ''a'', Num 1, Num 6),
      (PyNone, Num 3, Num 1), (Str ''z'', Num 4, Num 1), (Str ''b'', Num 5, PyNone)]"
  let ?T = "[(Str ''a'', ''p''), (Str ''a'', ''q''), (Str ''c'', ''r''), (PyNone, ''s''), (Str ''b'', ''t'')]"
  have ev: "build_dataframe fst fst (\<lambda>r. fst (snd r)) (\<lambda>m. snd (snd (fst m))) ?R ?T
     = [((Str ''a'', Num 1, Num 5), (Str ''a'', ''p'')), ((PyNone, Num 3, Num 1), (PyNone, ''s''))]"
    by (simp add: build_dataframe_def merge_inner_def dropna_def join_eq_def isna_def is_nan_def
        same_value_def)
  show ?thesis
    using merged_dataset_invariant [of "\<lambda>r. fst (snd r)" fst fst "\<lambda>m. snd (snd (fst m))" ?R ?T] ev
    by simp
qed

section \<open>Properties of the translations under \<open>fill_booleans\<close>\<close>

lemma first_of_mem: "xs \<noteq> [] \<Longrightarrow> first_of pick xs \<in> set xs"
  by (simp add: first_of_def)

lemma dict_set_new: "k \<notin> fst ` set d \<Longrightarrow> dict_set d k v = d @ [(k, v)]"
  by (simp add: dict_set_def)

lemma snd_entry_step:
  "snd (entry_step pick U col e) = entry_after pick U e"
  by (simp add: entry_step_def entry_after_def Let_def)

lemma entry_after_cases:
  "entry_after pick U e =
     (if fst ` set e \<inter> set U \<noteq> {} \<and> \<not> set U \<subseteq> fst ` set e
      then e @ [(first_of pick (filter (\<lambda>v. v \<notin> fst ` set e) U), TNaN)]
      else e)"
proof -
  let ?nv = "filter (\<lambda>v. v \<notin> fst ` set e) U"
  have ex: "list_ex (\<lambda>k. k \<in> set U) (map fst e) = (fst ` set e \<inter> set U \<noteq> {})"
    by (auto simp: list_ex_iff)
  have ne: "(?nv \<noteq> []) = (\<not> set U \<subseteq> fst ` set e)"
    by (auto simp: filter_empty_conv)
  have new: "dict_set e (first_of pick ?nv) TNaN = e @ [(first_of pick ?nv, TNaN)]" if "?nv \<noteq> []"
  proof -
    from that have "first_of pick ?nv \<in> set ?nv" by (rule first_of_mem)
    then have "first_of pick ?nv \<notin> fst ` set e" by simp
    then show ?thesis by (rule dict_set_new)
  qed
  show ?thesis
    using new ne by (auto simp: entry_after_def entry_step_def Let_def ex simp del: set_filter)
qed

lemma entry_after_prefix: "prefix e (entry_after pick U e)"
  by (simp add: entry_after_cases)

lemma snd_fill_entries:
  "snd (fill_entries pick U col tr) = map (\<lambda>ne. (fst ne, entry_after pick U (snd ne))) tr"
proof (induction tr arbitrary: col)
  case Nil
  show ?case by simp
next
  case (Cons a tr)
  obtain n e where a: "a = (n, e)" by (cases a)
  show ?case
    using Cons.IH [of "fst (entry_step pick U col e)"] snd_entry_step [of pick U col e]
    by (simp add: a split_def Let_def)
qed

lemma extends_refl: "extends tr tr"
  by (simp add: extends_def list_all2_refl)

lemma extends_trans: "extends a b \<Longrightarrow> extends b c \<Longrightarrow> extends a c"
proof -
  assume ab: "extends a b" and bc: "extends b c"
  have "list_all2 (\<lambda>x z. fst x = fst z \<and> prefix (snd x) (snd z)) a c"
  proof (rule list_all2_trans)
    show "list_all2 (\<lambda>x y. fst x = fst y \<and> prefix (snd x) (snd y)) a b"
      using ab by (simp add: extends_def)
    show "list_all2 (\<lambda>y z. fst y = fst z \<and> prefix (snd y) (snd z)) b c"
      using bc by (simp add: extends_def)
    show "fst x = fst z \<and> prefix (snd x) (snd z)"
      if "fst x = fst y \<and> prefix (snd x) (snd y)" "fst y = fst z \<and> prefix (snd y) (snd z)"
      for x y z :: "string \<times> entry"
      using that by (auto intro: prefix_order.trans)
  qed
  then show ?thesis by (simp add: extends_def)
qed

lemma extends_fill_entries: "extends tr (snd (fill_entries pick U col tr))"
  by (simp add: snd_fill_entries extends_def list_all2_map2 list_all2_refl entry_after_prefix)

lemma extends_fill_column: "extends tr (snd (fill_column pick variables tr named))"
  by (simp add: fill_column_def extends_fill_entries extends_refl)

lemma extends_fill_booleans: "extends tr (snd (fill_booleans pick tables tr variables))"
proof (induction tables arbitrary: tr)
  case Nil
  show ?case by (simp add: extends_refl)
next
  case (Cons named rest)
  have "extends tr (snd (fill_column pick variables tr named))"
    by (rule extends_fill_column)
  moreover have "extends (snd (fill_column pick variables tr named))
      (snd (fill_booleans pick rest (snd (fill_column pick variables tr named)) variables))"
    by (rule Cons.IH)
  ultimately show ?case
    by (auto simp: split_def Let_def intro: extends_trans)
qed

lemma fill_booleans_append:
  "snd (fill_booleans pick (xs @ ys) tr variables)
   = snd (fill_booleans pick ys (snd (fill_booleans pick xs tr variables)) variables)"
  by (induction xs arbitrary: tr) (simp_all add: split_def Let_def)

lemma seen_by_mono:
  assumes "k \<le> j"
  shows "extends (seen_by pick tables tr variables k) (seen_by pick tables tr variables j)"
proof -
  have "take j tables = take k tables @ take (j - k) (drop k tables)"
    using assms by (metis le_add_diff_inverse take_add)
  then show ?thesis
    by (simp add: seen_by_def fill_booleans_append extends_fill_booleans)
qed

lemma seen_by_Suc:
  assumes "k < length tables"
  shows "seen_by pick tables tr variables (Suc k)
         = snd (fill_column pick variables (seen_by pick tables tr variables k) (tables ! k))"
proof -
  have "take (Suc k) tables = take k tables @ [tables ! k]"
    using assms by (rule take_Suc_conv_app_nth)
  then show ?thesis
    by (simp add: seen_by_def fill_booleans_append split_def Let_def)
qed

lemma seen_by_all:
  "seen_by pick tables tr variables (length tables) = snd (fill_booleans pick tables tr variables)"
  by (simp add: seen_by_def)

lemma extends_nth:
  assumes "extends a b" and "i < length a" and "a ! i = (n, e)"
  shows "\<exists>e'. b ! i = (n, e') \<and> prefix e e'"
proof -
  from assms(1,2) have "fst (a ! i) = fst (b ! i) \<and> prefix (snd (a ! i)) (snd (b ! i))"
    unfolding extends_def by (rule list_all2_nthD)
  with assms(3) show ?thesis by (cases "b ! i") auto
qed

lemma extends_length: "extends a b \<Longrightarrow> length a = length b"
  by (simp add: extends_def list_all2_lengthD)

text \<open>
  C10 as stated fails: a column with four distinct values and a column typed \<open>dict\<close>
  match the entry \<open>{Ja: 1, Nee: 0}\<close> and hold the uncovered value \<open>X\<close>, and nothing
  is inserted into the entry; and of the two uncovered values \<open>X\<close> and \<open>Y\<close> of a
  column with three values only one is inserted.
\<close>

theorem fill_booleans_inserts_nothing:
  "snd (fill_booleans (pick_nth 0) [(''c'', [Str ''Ja'', Str ''Nee'', Str ''X'', Str ''Y''])]
          [(''b'', [(Str ''Ja'', TInt 1), (Str ''Nee'', TInt 0)])] [])
   = [(''b'', [(Str ''Ja'', TInt 1), (Str ''Nee'', TInt 0)])]
   \<and> snd (fill_booleans (pick_nth 0) [(''c'', [Str ''Ja'', Str ''X''])]
          [(''b'', [(Str ''Ja'', TInt 1), (Str ''Nee'', TInt 0)])] [(''c'', ''dict'')])
   = [(''b'', [(Str ''Ja'', TInt 1), (Str ''Nee'', TInt 0)])]
   \<and> snd (fill_booleans (pick_nth 0) [(''c'', [Str ''Ja'', Str ''X'', Str ''Y''])]
          [(''b'', [(Str ''Ja'', TInt 1)])] [])
   = [(''b'', [(Str ''Ja'', TInt 1), (Str ''X'', TNaN)])]
   \<and> Str ''X'' \<notin> fst ` set [(Str ''Ja'', TInt 1), (Str ''Nee'', TInt 0)]
   \<and> Str ''Y'' \<notin> fst ` set [(Str ''Ja'', TInt 1), (Str ''X'', TNaN)]"
  by code_simp

text \<open>
  C10, amended. When the loop reaches a column that is converted (not typed \<open>dict\<close>, at
  most 3 distinct values) and an entry, as it stands then, has a key among the column's
  values and leaves one of them uncovered, the uncovered value that comes first in the
  set of uncovered values is appended to that entry with the value \<open>NaN\<close>. The entry
  keeps this item: it is in the entry that every later column sees, in the translations
  when \<open>fill_booleans\<close> returns, and in \<open>self.translations\<close> after the call in
  \<open>read_data\<close>.
\<close>

theorem fill_booleans_mutates_translations:
  fixes pick :: "cell list \<Rightarrow> nat" and e :: entry and col :: "cell list"
  assumes k: "k < length tables" and named: "tables ! k = (name, col)"
    and conv: "convert_to_bool variables name" and few: "length (unique col) \<le> 3"
    and i: "i < length translations"
    and entry: "seen_by pick tables translations variables k ! i = (n, e)"
    and hit: "fst ` set e \<inter> set (unique col) \<noteq> {}" and unc: "\<not> set (unique col) \<subseteq> fst ` set e"
    and j: "k < j" "j \<le> length tables"
  defines "u \<equiv> first_of pick (filter (\<lambda>v. v \<notin> fst ` set e) (unique col))"
  shows "u \<in> set (unique col) \<and> u \<in> set col \<and> u \<notin> fst ` set e
           \<and> seen_by pick tables translations variables (Suc k) ! i = (n, e @ [(u, TNaN)])
           \<and> (\<exists>e'. seen_by pick tables translations variables j ! i = (n, e')
                    \<and> prefix (e @ [(u, TNaN)]) e')
           \<and> (\<exists>e'. snd (fill_booleans pick tables translations variables) ! i = (n, e')
                    \<and> prefix (e @ [(u, TNaN)]) e')
           \<and> (\<exists>tr e'. snd (read_data_fill pick (Some translations) tables variables) = Some tr
                    \<and> tr ! i = (n, e') \<and> prefix (e @ [(u, TNaN)]) e')"
proof -
  let ?s = "seen_by pick tables translations variables"
  let ?U = "unique col"
  have len: "length (?s k) = length translations"
    using seen_by_mono [of 0 k pick tables "translations" variables] extends_length
    by (fastforce simp: seen_by_def)
  have "filter (\<lambda>v. v \<notin> fst ` set e) ?U \<noteq> []"
    using unc by (auto simp: filter_empty_conv)
  then have "u \<in> set (filter (\<lambda>v. v \<notin> fst ` set e) ?U)"
    unfolding u_def by (rule first_of_mem)
  then have u: "u \<in> set ?U" "u \<notin> fst ` set e" by auto
  have uc: "u \<in> set col" using u(1) unique_subset by blast
  have ea: "entry_after pick ?U e = e @ [(u, TNaN)]"
    using hit unc by (simp add: entry_after_cases u_def)
  have "?s (Suc k) = snd (fill_entries pick ?U col (?s k))"
    using seen_by_Suc [OF k, of pick "translations" variables] named conv few
    by (simp add: fill_column_def)
  then have "?s (Suc k) ! i = (fst (?s k ! i), entry_after pick ?U (snd (?s k ! i)))"
    using i len by (simp add: snd_fill_entries)
  then have s1: "?s (Suc k) ! i = (n, e @ [(u, TNaN)])"
    using entry ea by simp
  have len1: "i < length (?s (Suc k))"
    using seen_by_mono [of k "Suc k" pick tables "translations" variables] extends_length [of "?s k" "?s (Suc k)"]
      i len by simp
  have later: "\<exists>e'. ?s j' ! i = (n, e') \<and> prefix (e @ [(u, TNaN)]) e'" if "Suc k \<le> j'" for j'
    using extends_nth [OF seen_by_mono [OF that] len1 s1] .
  have sj: "\<exists>e'. ?s j ! i = (n, e') \<and> prefix (e @ [(u, TNaN)]) e'"
    using later [of j] j by simp
  have sf: "\<exists>e'. snd (fill_booleans pick tables translations variables) ! i = (n, e')
                    \<and> prefix (e @ [(u, TNaN)]) e'"
    using later [of "length tables"] k by (simp add: seen_by_all)
  have sr: "\<exists>tr e'. snd (read_data_fill pick (Some translations) tables variables) = Some tr
                    \<and> tr ! i = (n, e') \<and> prefix (e @ [(u, TNaN)]) e'"
    using sf by (simp add: read_data_fill_def split_def Let_def)
  from u uc s1 sj sf sr show ?thesis by blast
qed

theorem fill_booleans_mutates_translations_witness:
  "first_of (pick_nth 0)
      (filter (\<lambda>v. v \<notin> fst ` set [(Str ''Ja'', TInt 1), (Str ''Nee'', TInt 0)])
         (unique [Str ''Nee'', Str ''X''])) = Str ''X''
   \<and> seen_by (pick_nth 0)
        [(''c'', [Str ''Ja'', Str ''Nee'', Str ''Ja'']), (''d'', [Str ''Nee'', Str ''X'']),
         (''f'', [Str ''X'', Str ''Z''])]
        [(''b'', [(Str ''Ja'', TInt 1), (Str ''Nee'', TInt 0)])] [] 2 ! 0
     = (''b'', [(Str ''Ja'', TInt 1), (Str ''Nee'', TInt 0)] @ [(Str ''X'', TNaN)])
   \<and> fill_booleans (pick_nth 0)
        [(''c'', [Str ''Ja'', Str ''Nee'', Str ''Ja'']), (''d'', [Str ''Nee'', Str ''X'']),
         (''f'', [Str ''X'', Str ''Z''])]
        [(''b'', [(Str ''Ja'', TInt 1), (Str ''Nee'', TInt 0)])] []
     = ([(''c'', [Num 1, Num 0, Num 1]), (''d'', [Num 0, NaN 0]), (''f'', [NaN 0, NaN 0])],
        [(''b'', [(Str ''Ja'', TInt 1), (Str ''Nee'', TInt 0), (Str ''X'', TNaN), (Str ''Z'', TNaN)])])
   \<and> prefix ([(Str ''Ja'', TInt 1), (Str ''Nee'', TInt 0)] @ [(Str ''X'', TNaN)])
        [(Str ''Ja'', TInt 1), (Str ''Nee'', TInt 0), (Str ''X'', TNaN), (Str ''Z'', TNaN)]"
proof -
  let ?tables = "[(''c'', [Str ''Ja'', Str ''Nee'', Str ''Ja'']), (''d'', [Str ''Nee'', Str ''X'']),
         (''f'', [Str ''X'', Str ''Z''])]"
  let ?tr = "[(''b'', [(Str ''Ja'', TInt 1), (Str ''Nee'', TInt 0)])]"
  let ?e = "[(Str ''Ja'', TInt 1), (Str ''Nee'', TInt 0)]"
  have k: "1 < length ?tables" by simp
  have named: "?tables ! 1 = (''d'', [Str ''Nee'', Str ''X''])" by simp
  have conv: "convert_to_bool [] ''d''" by (simp add: convert_to_bool_def)
  have un: "unique [Str ''Nee'', Str ''X''] = [Str ''Nee'', Str ''X'']" by code_simp
  have few: "length (unique [Str ''Nee'', Str ''X'']) \<le> 3" by (simp add: un)
  have i: "0 < length ?tr" by simp
  have entry: "seen_by (pick_nth 0) ?tables ?tr [] 1 ! 0 = (''b'', ?e)"
    by code_simp
  have hit: "fst ` set ?e \<inter> set (unique [Str ''Nee'', Str ''X'']) \<noteq> {}" by (simp add: un)
  have unc: "\<not> set (unique [Str ''Nee'', Str ''X'']) \<subseteq> fst ` set ?e" by (simp add: un)
  have j: "(1::nat) < 2" "2 \<le> length ?tables" by simp_all
  have first: "first_of (pick_nth 0) (filter (\<lambda>v. v \<notin> fst ` set ?e) (unique [Str ''Nee'', Str ''X'']))
               = Str ''X''"
    by (simp add: un first_of_def pick_nth_def)
  have run: "fill_booleans (pick_nth 0) ?tables ?tr []
     = ([(''c'', [Num 1, Num 0, Num 1]), (''d'', [Num 0, NaN 0]), (''f'', [NaN 0, NaN 0])],
        [(''b'', [(Str ''Ja'', TInt 1), (Str ''Nee'', TInt 0), (Str ''X'', TNaN), (Str ''Z'', TNaN)])])"
    by code_simp
  from fill_booleans_mutates_translations [OF k named conv few i entry hit unc j]
  have "seen_by (pick_nth 0) ?tables ?tr [] 2 ! 0 = (''b'', ?e @ [(Str ''X'', TNaN)])
      \<and> (\<exists>e'. snd (fill_booleans (pick_nth 0) ?tables ?tr []) ! 0 = (''b'', e')
               \<and> prefix (?e @ [(Str ''X'', TNaN)]) e')"
    unfolding first by (simp add: numeral_2_eq_2)
  then show ?thesis using first run by simp
qed

section \<open>Properties of the cells under \<open>fill_booleans\<close>\<close>

lemma assign_where_map:
  "assign_where key val col = map (\<lambda>v. if mask_eq v key then val else v) col"
proof (cases "list_ex (\<lambda>v. mask_eq v key) col")
  case True
  then show ?thesis by (simp add: assign_where_def)
next
  case False
  then have "map (\<lambda>v. if mask_eq v key then val else v) col = col"
    by (intro map_idI) (auto simp: list_ex_iff)
  with False show ?thesis by (simp add: assign_where_def)
qed

lemma apply_entry_map: "apply_entry e col = map (cell_apply e) col"
proof -
  have "foldl (\<lambda>c kv. assign_where (fst kv) (float_of (snd kv)) c) col e
        = map (\<lambda>v. foldl (\<lambda>w kv. if mask_eq w (fst kv) then float_of (snd kv) else w) v e) col"
    by (induction e arbitrary: col) (simp_all add: assign_where_map o_def)
  then show ?thesis by (simp add: apply_entry_def cell_apply_def)
qed

lemma cell_apply_Nil [simp]: "cell_apply [] v = v"
  by (simp add: cell_apply_def)

lemma cell_apply_Cons [simp]:
  "cell_apply (kv # e) v = cell_apply e (if mask_eq v (fst kv) then float_of (snd kv) else v)"
  by (simp add: cell_apply_def)

lemma float_of_stable: "isna (float_of t) \<or> is_num (float_of t)"
  by (cases t) (simp_all add: is_num_def isna_def is_nan_def)

lemma cell_apply_stable:
  "isna v \<or> is_num v \<Longrightarrow> \<forall>k \<in> fst ` set e. \<not> is_num k \<Longrightarrow> cell_apply e v = v"
proof (induction e)
  case Nil
  show ?case by simp
next
  case (Cons kv e)
  from Cons.prems have "\<not> mask_eq v (fst kv)"
    by (auto simp: mask_eq_def)
  with Cons show ?case by simp
qed

lemma cell_apply_covered:
  assumes "\<forall>k \<in> fst ` set e. \<not> is_num k" and "map_of e v = Some t" and "\<not> isna v"
  shows "cell_apply e v = float_of t"
  using assms
proof (induction e)
  case Nil
  then show ?case by simp
next
  case (Cons kv e)
  obtain k t' where kv: "kv = (k, t')" by (cases kv)
  show ?case
  proof (cases "v = k")
    case True
    with Cons.prems kv have t: "t' = t" by simp
    have "cell_apply e (float_of t) = float_of t"
      using cell_apply_stable [OF float_of_stable] Cons.prems(1) by simp
    with True kv t Cons.prems(3) show ?thesis by (simp add: mask_eq_def)
  next
    case False
    with Cons.prems kv have "map_of e v = Some t" by simp
    with Cons.IH Cons.prems False kv show ?thesis by (simp add: mask_eq_def)
  qed
qed

lemma fst_entry_step:
  "fst (entry_step pick U col e)
   = (if fst ` set e \<inter> set U \<noteq> {} then map (cell_apply (entry_after pick U e)) col else col)"
proof -
  have ex: "list_ex (\<lambda>k. k \<in> set U) (map fst e) = (fst ` set e \<inter> set U \<noteq> {})"
    by (auto simp: list_ex_iff)
  show ?thesis
    by (simp add: entry_step_def entry_after_def Let_def ex apply_entry_map del: set_filter)
qed

lemma entry_after_keys:
  "fst ` set (entry_after pick U e) \<subseteq> fst ` set e \<union> set U"
proof -
  let ?nv = "filter (\<lambda>v. v \<notin> fst ` set e) U"
  have "first_of pick ?nv \<in> set U" if "\<not> set U \<subseteq> fst ` set e"
  proof -
    from that have "?nv \<noteq> []" by (auto simp: filter_empty_conv)
    then have "first_of pick ?nv \<in> set ?nv" by (rule first_of_mem)
    then show ?thesis by simp
  qed
  then show ?thesis by (auto simp: entry_after_cases simp del: set_filter)
qed

lemma fill_entries_Cons:
  "fill_entries pick U col (ne # rest)
   = (fst (fill_entries pick U (fst (entry_step pick U col (snd ne))) rest),
      (fst ne, entry_after pick U (snd ne))
        # snd (fill_entries pick U (fst (entry_step pick U col (snd ne))) rest))"
  by (cases ne) (simp add: split_def Let_def snd_entry_step)

lemma fill_entries_stable:
  assumes "\<forall>ne \<in> set trs. \<forall>k \<in> fst ` set (snd ne). \<not> is_num k" and "\<forall>v \<in> set U. \<not> is_num v"
  shows "length (fst (fill_entries pick U col trs)) = length col
     \<and> (\<forall>i < length col. isna (col ! i) \<or> is_num (col ! i)
           \<longrightarrow> fst (fill_entries pick U col trs) ! i = col ! i)"
  using assms(1)
proof (induction trs arbitrary: col)
  case Nil
  show ?case by simp
next
  case (Cons ne trs)
  let ?c1 = "fst (entry_step pick U col (snd ne))"
  have keys: "\<forall>k \<in> fst ` set (entry_after pick U (snd ne)). \<not> is_num k"
  proof
    fix k
    assume "k \<in> fst ` set (entry_after pick U (snd ne))"
    then have "k \<in> fst ` set (snd ne) \<or> k \<in> set U"
      using entry_after_keys [of pick U "snd ne"] by blast
    then show "\<not> is_num k"
      using Cons.prems assms(2) by (meson list.set_intros(1))
  qed
  have l1: "length ?c1 = length col" by (simp add: fst_entry_step)
  have s1: "?c1 ! i = col ! i" if "i < length col" "isna (col ! i) \<or> is_num (col ! i)" for i
    using that cell_apply_stable [OF that(2) keys] by (simp add: fst_entry_step)
  have IH: "length (fst (fill_entries pick U ?c1 trs)) = length ?c1
     \<and> (\<forall>i < length ?c1. isna (?c1 ! i) \<or> is_num (?c1 ! i)
           \<longrightarrow> fst (fill_entries pick U ?c1 trs) ! i = ?c1 ! i)"
    using Cons.IH [of ?c1] Cons.prems by simp
  show ?case
    unfolding fill_entries_Cons using IH l1 s1 by auto
qed

lemma fill_entries_skip:
  assumes "\<forall>ne \<in> set pre. fst ` set (snd ne) \<inter> set U = {}"
  shows "fst (fill_entries pick U col (pre @ rest)) = fst (fill_entries pick U col rest)"
  using assms
proof (induction pre)
  case Nil
  show ?case by simp
next
  case (Cons ne pre)
  then have "fst (entry_step pick U col (snd ne)) = col"
    by (simp add: fst_entry_step)
  with Cons show ?case by (simp add: fill_entries_Cons)
qed

lemma map_of_append_Some: "map_of e v = Some t \<Longrightarrow> map_of (e @ x) v = Some t"
  by (simp add: map_add_Some_iff)

lemma map_of_append_new: "u \<notin> fst ` set e \<Longrightarrow> map_of (e @ [(u, t)]) u = Some t"
  by (simp add: map_add_Some_iff map_of_eq_None_iff)

lemma fill_column_first_entry:
  fixes pick :: "cell list \<Rightarrow> nat" and post :: translation_map
  assumes conv: "convert_to_bool variables name"
    and few: "length (unique col) \<le> 3"
    and pre: "\<forall>ne \<in> set pre. fst ` set (snd ne) \<inter> set (unique col) = {}"
    and hit: "fst ` set e \<inter> set (unique col) \<noteq> {}"
    and ncol: "\<forall>v \<in> set col. \<not> is_num v"
    and nkeys: "\<forall>ne \<in> set (pre @ (n, e) # post). \<forall>k \<in> fst ` set (snd ne). \<not> is_num k"
  defines "res \<equiv> fill_column pick variables (pre @ (n, e) # post) (name, col)"
  defines "u \<equiv> first_of pick (filter (\<lambda>v. v \<notin> fst ` set e) (unique col))"
  shows "length (fst res) = length col"
    and "\<forall>i < length col. \<forall>t. \<not> isna (col ! i) \<and> map_of e (col ! i) = Some t
            \<longrightarrow> fst res ! i = float_of t"
    and "set (unique col) \<subseteq> fst ` set e \<longrightarrow> snd res ! length pre = (n, e)"
    and "\<not> set (unique col) \<subseteq> fst ` set e \<longrightarrow>
           u \<in> set (unique col) \<and> u \<notin> fst ` set e
              \<and> snd res ! length pre = (n, e @ [(u, TNaN)])
              \<and> (\<not> isna u \<longrightarrow> (\<forall>i < length col. col ! i = u \<longrightarrow> fst res ! i = NaN 0))"
proof -
  let ?U = "unique col"
  let ?e' = "entry_after pick ?U e"
  let ?c1 = "map (cell_apply ?e') col"
  have subU: "set ?U \<subseteq> set col" by (rule unique_subset)
  have res: "res = fill_entries pick ?U col (pre @ (n, e) # post)"
    using conv few by (simp add: res_def fill_column_def)
  have sndres: "snd res ! length pre = (n, ?e')"
    by (simp add: res snd_fill_entries nth_append)
  have "fst res = fst (fill_entries pick ?U col ((n, e) # post))"
    unfolding res using pre by (intro fill_entries_skip) simp
  also have "\<dots> = fst (fill_entries pick ?U ?c1 post)"
    using hit by (simp add: fill_entries_Cons fst_entry_step)
  finally have fstres: "fst res = fst (fill_entries pick ?U ?c1 post)" .
  have nU: "\<forall>v \<in> set ?U. \<not> is_num v" using ncol subU by blast
  have npost: "\<forall>ne \<in> set post. \<forall>k \<in> fst ` set (snd ne). \<not> is_num k"
    using nkeys by auto
  have st: "length (fst (fill_entries pick ?U ?c1 post)) = length ?c1
     \<and> (\<forall>i < length ?c1. isna (?c1 ! i) \<or> is_num (?c1 ! i)
           \<longrightarrow> fst (fill_entries pick ?U ?c1 post) ! i = ?c1 ! i)"
    using npost nU by (rule fill_entries_stable)
  have keys': "\<forall>k \<in> fst ` set ?e'. \<not> is_num k"
  proof
    fix k
    assume "k \<in> fst ` set ?e'"
    then have "k \<in> fst ` set e \<or> k \<in> set ?U"
      using entry_after_keys [of pick ?U e] by blast
    moreover have "\<forall>k \<in> fst ` set e. \<not> is_num k"
      using nkeys by auto
    ultimately show "\<not> is_num k"
      using nU by blast
  qed
  show "length (fst res) = length col"
    using st fstres by simp
  have settle: "fst res ! i = w" if "i < length col" "?c1 ! i = w" "isna w \<or> is_num w" for i w
  proof -
    have "i < length ?c1" using that(1) by simp
    moreover have "isna (?c1 ! i) \<or> is_num (?c1 ! i)" using that(2,3) by blast
    ultimately have "fst (fill_entries pick ?U ?c1 post) ! i = ?c1 ! i"
      using st by blast
    then show ?thesis using fstres that(2) by simp
  qed
  show "\<forall>i < length col. \<forall>t. \<not> isna (col ! i) \<and> map_of e (col ! i) = Some t
            \<longrightarrow> fst res ! i = float_of t"
  proof (intro allI impI)
    fix i t
    assume i: "i < length col" and h: "\<not> isna (col ! i) \<and> map_of e (col ! i) = Some t"
    have "prefix e ?e'" by (rule entry_after_prefix)
    then obtain x where x: "?e' = e @ x" by (auto simp: prefix_def)
    have "map_of ?e' (col ! i) = Some t"
      unfolding x using h by (intro map_of_append_Some) simp
    then have "cell_apply ?e' (col ! i) = float_of t"
      using keys' h by (intro cell_apply_covered) auto
    then have "?c1 ! i = float_of t" using i by simp
    then show "fst res ! i = float_of t"
      using settle [OF i _ float_of_stable] by simp
  qed
  show "set (unique col) \<subseteq> fst ` set e \<longrightarrow> snd res ! length pre = (n, e)"
    using sndres by (simp add: entry_after_cases)
  show "\<not> set (unique col) \<subseteq> fst ` set e \<longrightarrow>
           u \<in> set (unique col) \<and> u \<notin> fst ` set e
              \<and> snd res ! length pre = (n, e @ [(u, TNaN)])
              \<and> (\<not> isna u \<longrightarrow> (\<forall>i < length col. col ! i = u \<longrightarrow> fst res ! i = NaN 0))"
  proof
    assume unc: "\<not> set (unique col) \<subseteq> fst ` set e"
    have "filter (\<lambda>v. v \<notin> fst ` set e) ?U \<noteq> []"
      using unc by (auto simp: filter_empty_conv)
    then have "u \<in> set (filter (\<lambda>v. v \<notin> fst ` set e) ?U)"
      unfolding u_def by (rule first_of_mem)
    then have u: "u \<in> set ?U" "u \<notin> fst ` set e" by auto
    have ea: "?e' = e @ [(u, TNaN)]"
      using hit unc by (simp add: entry_after_cases u_def)
    have cells: "fst res ! i = NaN 0" if i: "i < length col" and ci: "col ! i = u" and nn: "\<not> isna u" for i
    proof -
      have "map_of ?e' u = Some TNaN"
        unfolding ea using u(2) by (rule map_of_append_new)
      then have "cell_apply ?e' u = float_of TNaN"
        using keys' nn by (intro cell_apply_covered) auto
      then have c: "?c1 ! i = NaN 0" using i ci by simp
      have "isna (NaN 0) \<or> is_num (NaN 0)" by (simp add: isna_def is_nan_def)
      from settle [OF i c this] show ?thesis .
    qed
    show "u \<in> set (unique col) \<and> u \<notin> fst ` set e
              \<and> snd res ! length pre = (n, e @ [(u, TNaN)])
              \<and> (\<not> isna u \<longrightarrow> (\<forall>i < length col. col ! i = u \<longrightarrow> fst res ! i = NaN 0))"
      using u sndres ea cells by auto
  qed
qed

lemma fill_column_missing_stays:
  fixes pick :: "cell list \<Rightarrow> nat"
  assumes ncol: "\<forall>v \<in> set col. \<not> is_num v"
    and nkeys: "\<forall>ne \<in> set trs. \<forall>k \<in> fst ` set (snd ne). \<not> is_num k"
  shows "\<forall>i < length col. isna (col ! i)
            \<longrightarrow> fst (fill_column pick variables trs (name, col)) ! i = col ! i"
proof (cases "convert_to_bool variables name \<and> length (unique col) \<le> 3")
  case False
  then show ?thesis by (auto simp: fill_column_def)
next
  case True
  have "\<forall>v \<in> set (unique col). \<not> is_num v"
    using ncol unique_subset by blast
  from fill_entries_stable [OF nkeys this, of pick col] True
  show ?thesis by (simp add: fill_column_def)
qed

text \<open>
  C8 as stated fails: with the entry \<open>{Ja: 1}\<close> on a column holding \<open>Ja\<close>,
  \<open>X\<close> and \<open>Y\<close>, only one of the two uncovered values becomes \<open>NaN\<close>,
  whichever of the two the set of uncovered values yields first; the other one stays.
\<close>

theorem fill_booleans_second_uncovered_kept:
  "fst (fill_booleans (pick_nth 0) [(''c'', [Str ''Ja'', Str ''X'', Str ''Y''])]
          [(''b'', [(Str ''Ja'', TInt 1)])] [])
   = [(''c'', [Num 1, NaN 0, Str ''Y''])]
   \<and> fst (fill_booleans (pick_nth 1) [(''c'', [Str ''Ja'', Str ''X'', Str ''Y''])]
          [(''b'', [(Str ''Ja'', TInt 1)])] [])
   = [(''c'', [Num 1, Str ''X'', NaN 0])]"
  by code_simp

text \<open>
  C8, amended. Take a column that is not typed \<open>dict\<close>, has at most 3 distinct values
  and holds no numbers, translations whose keys are not numbers, and the first entry, in
  the order of the translations, with a key among the column's values. Then every cell
  that holds a key of that entry and is not missing becomes the float of the key's
  target, and a missing cell (\<open>None\<close> or NaN) stays as it is. If the entry covers all
  values of the column it is unchanged; otherwise exactly one uncovered value, the first
  of the set of uncovered values, is appended to it with \<open>NaN\<close>, and the cells holding
  that value become \<open>NaN\<close> unless the value is itself missing. A column with 4 or more
  distinct values, and a column typed \<open>dict\<close>, are left as they are, and so are the
  translations.
\<close>

theorem fill_column_boolean_fill:
  fixes pick :: "cell list \<Rightarrow> nat" and pre post trs :: translation_map and e :: entry
    and col :: "cell list" and variables :: "(string \<times> string) list" and name n :: string
  defines "res \<equiv> fill_column pick variables (pre @ (n, e) # post) (name, col)"
  defines "u \<equiv> first_of pick (filter (\<lambda>v. v \<notin> fst ` set e) (unique col))"
  shows
  "(convert_to_bool variables name \<and> length (unique col) \<le> 3
      \<and> (\<forall>ne \<in> set pre. fst ` set (snd ne) \<inter> set (unique col) = {})
      \<and> fst ` set e \<inter> set (unique col) \<noteq> {}
      \<and> (\<forall>v \<in> set col. \<not> is_num v)
      \<and> (\<forall>ne \<in> set (pre @ (n, e) # post). \<forall>k \<in> fst ` set (snd ne). \<not> is_num k)
    \<longrightarrow> length (fst res) = length col
      \<and> (\<forall>i < length col. \<forall>t. \<not> isna (col ! i) \<and> map_of e (col ! i) = Some t
            \<longrightarrow> fst res ! i = float_of t)
      \<and> (\<forall>i < length col. isna (col ! i) \<longrightarrow> fst res ! i = col ! i)
      \<and> (set (unique col) \<subseteq> fst ` set e \<longrightarrow> snd res ! length pre = (n, e))
      \<and> (\<not> set (unique col) \<subseteq> fst ` set e
            \<longrightarrow> u \<in> set (unique col) \<and> u \<in> set col \<and> u \<notin> fst ` set e
                \<and> snd res ! length pre = (n, e @ [(u, TNaN)])
                \<and> (\<not> isna u \<longrightarrow> (\<forall>i < length col. col ! i = u \<longrightarrow> fst res ! i = NaN 0))))
   \<and> (3 < length (unique col) \<longrightarrow> fill_column pick variables trs (name, col) = (col, trs))
   \<and> (map_of variables name = Some ''dict'' \<longrightarrow> fill_column pick variables trs (name, col) = (col, trs))"
proof (intro conjI impI)
  assume h: "convert_to_bool variables name \<and> length (unique col) \<le> 3
      \<and> (\<forall>ne \<in> set pre. fst ` set (snd ne) \<inter> set (unique col) = {})
      \<and> fst ` set e \<inter> set (unique col) \<noteq> {}
      \<and> (\<forall>v \<in> set col. \<not> is_num v)
      \<and> (\<forall>ne \<in> set (pre @ (n, e) # post). \<forall>k \<in> fst ` set (snd ne). \<not> is_num k)"
  then have conv: "convert_to_bool variables name" and few: "length (unique col) \<le> 3"
    and pre: "\<forall>ne \<in> set pre. fst ` set (snd ne) \<inter> set (unique col) = {}"
    and hit: "fst ` set e \<inter> set (unique col) \<noteq> {}"
    and ncol: "\<forall>v \<in> set col. \<not> is_num v"
    and nkeys: "\<forall>ne \<in> set (pre @ (n, e) # post). \<forall>k \<in> fst ` set (snd ne). \<not> is_num k"
    by blast+
  note f = fill_column_first_entry [OF conv few pre hit ncol nkeys, of pick,
      folded res_def u_def]
  show "length (fst res) = length col"
    by (rule f(1))
  show "\<forall>i < length col. \<forall>t. \<not> isna (col ! i) \<and> map_of e (col ! i) = Some t
            \<longrightarrow> fst res ! i = float_of t"
    by (rule f(2))
  show "\<forall>i < length col. isna (col ! i) \<longrightarrow> fst res ! i = col ! i"
    unfolding res_def by (rule fill_column_missing_stays [OF ncol nkeys])
  show "snd res ! length pre = (n, e)" if "set (unique col) \<subseteq> fst ` set e"
    using f(3) that by blast
  show "u \<in> set (unique col)" if "\<not> set (unique col) \<subseteq> fst ` set e"
    using f(4) that by blast
  then show "u \<in> set col" if "\<not> set (unique col) \<subseteq> fst ` set e"
    using that unique_subset by blast
  show "u \<notin> fst ` set e" if "\<not> set (unique col) \<subseteq> fst ` set e"
    using f(4) that by blast
  show "snd res ! length pre = (n, e @ [(u, TNaN)])" if "\<not> set (unique col) \<subseteq> fst ` set e"
    using f(4) that by blast
  show "\<forall>i < length col. col ! i = u \<longrightarrow> fst res ! i = NaN 0"
    if "\<not> set (unique col) \<subseteq> fst ` set e" "\<not> isna u"
    using f(4) that by blast
next
  assume "3 < length (unique col)"
  then show "fill_column pick variables trs (name, col) = (col, trs)"
    by (simp add: fill_column_def)
next
  assume "map_of variables name = Some ''dict''"
  then show "fill_column pick variables trs (name, col) = (col, trs)"
    by (simp add: fill_column_def convert_to_bool_def)
qed

theorem fill_column_boolean_fill_witness:
  "fill_column (pick_nth 0) []
     ([(''a'', [(Str ''Yes'', TInt 1)])] @ (''b'', [(Str ''Ja'', TInt 1), (Str ''Nee'', TInt 0)]) # [])
     (''c'', [Str ''Ja'', Str ''X'', PyNone, Str ''Ja''])
   = ([Num 1, NaN 0, PyNone, Num 1],
      [(''a'', [(Str ''Yes'', TInt 1)]),
       (''b'', [(Str ''Ja'', TInt 1), (Str ''Nee'', TInt 0), (Str ''X'', TNaN)])])
   \<and> first_of (pick_nth 0)
        (filter (\<lambda>v. v \<notin> fst ` set [(Str ''Ja'', TInt 1), (Str ''Nee'', TInt 0)])
           (unique [Str ''Ja'', Str ''X'', PyNone, Str ''Ja''])) = Str ''X''
   \<and> fill_column (pick_nth 0) [] [(''b'', [(Str ''Ja'', TInt 1), (Str ''Nee'', TInt 0)])]
       (''c'', [Str ''Ja'', Str ''Nee'', Str ''X'', Str ''Y''])
     = ([Str ''Ja'', Str ''Nee'', Str ''X'', Str ''Y''],
        [(''b'', [(Str ''Ja'', TInt 1), (Str ''Nee'', TInt 0)])])
   \<and> fill_column (pick_nth 0) [(''c'', ''dict'')]
       [(''b'', [(Str ''Ja'', TInt 1), (Str ''Nee'', TInt 0)])] (''c'', [Str ''Ja'', Str ''Nee''])
     = ([Str ''Ja'', Str ''Nee''], [(''b'', [(Str ''Ja'', TInt 1), (Str ''Nee'', TInt 0)])])"
proof -
  let ?col = "[Str ''Ja'', Str ''X'', PyNone, Str ''Ja'']"
  let ?e = "[(Str ''Ja'', TInt 1), (Str ''Nee'', TInt 0)]"
  have a: "fill_column (pick_nth 0) []
     ([(''a'', [(Str ''Yes'', TInt 1)])] @ (''b'', ?e) # []) (''c'', ?col)
   = ([Num 1, NaN 0, PyNone, Num 1],
      [(''a'', [(Str ''Yes'', TInt 1)]),
       (''b'', [(Str ''Ja'', TInt 1), (Str ''Nee'', TInt 0), (Str ''X'', TNaN)])])"
    by code_simp
  have un: "unique ?col = [Str ''Ja'', Str ''X'', PyNone]" by code_simp
  have first: "first_of (pick_nth 0) (filter (\<lambda>v. v \<notin> fst ` set ?e) (unique ?col)) = Str ''X''"
    by (simp add: un first_of_def pick_nth_def)
  have four: "3 < length (unique [Str ''Ja'', Str ''Nee'', Str ''X'', Str ''Y''])"
    by code_simp
  show ?thesis
    using a first four
      fill_column_boolean_fill [where variables = "[]" and name = "''c''" and col = ?col
        and pre = "[(''a'', [(Str ''Yes'', TInt 1)])]" and e = ?e and pick = "pick_nth 0"
        and n = "''b''" and post = "[]"]
      fill_column_boolean_fill [where variables = "[]" and name = "''c''"
        and col = "[Str ''Ja'', Str ''Nee'', Str ''X'', Str ''Y'']" and pick = "pick_nth 0"
        and trs = "[(''b'', [(Str ''Ja'', TInt 1), (Str ''Nee'', TInt 0)])]"]
      fill_column_boolean_fill [where variables = "[(''c'', ''dict'')]" and name = "''c''"
        and col = "[Str ''Ja'', Str ''Nee'']" and pick = "pick_nth 0"
        and trs = "[(''b'', [(Str ''Ja'', TInt 1), (Str ''Nee'', TInt 0)])]"]
    by simp
qed

end
